theory Spec2Isabelle
  imports Complex_Main
begin

section \<open>JavaScript numbers\<close>

text \<open>
  A JavaScript number is a double: a finite value, one of the two infinities, or NaN.
  The result of an arithmetic operation is the exact result rounded to a double. The
  rounding is kept as a function on the reals of which only this is used: it is
  monotone, it leaves its own results as they are, it commutes with negation, and from
  the smallest normal number \<open>2^-1022\<close> on it is off by at most \<open>2^-53\<close> of the value.
  Rounding to nearest in binary64 is such a function; so is the exact arithmetic
  \<open>exact\<close>, which rounds nothing. Every theorem below that names a rounding holds for all
  of them. What is left out is overflow: canvas sizes are below \<open>2^32\<close> and no value of
  the compositor comes near \<open>2^1024\<close>. There is one zero (a zero divisor counts as \<open>+0\<close>;
  the compositor divides by a rounded product of a measured width and by
  \<open>Math.max(5, _)\<close>, neither of which is negative).
\<close>

definition unit_roundoff :: real where
  "unit_roundoff = 1 / 2 ^ 53"

definition min_normal :: real where
  "min_normal = 1 / 2 ^ 1022"

typedef rounding =
  "{r :: real \<Rightarrow> real.
      (\<forall>x y. x \<le> y \<longrightarrow> r x \<le> r y) \<and>
      (\<forall>x. r (r x) = r x) \<and>
      (\<forall>x. r (- x) = - r x) \<and>
      (\<forall>x. min_normal \<le> \<bar>x\<bar> \<longrightarrow> \<bar>r x - x\<bar> \<le> \<bar>x\<bar> * unit_roundoff)}"
  morphisms fl Abs_rounding
  by (rule exI [of _ "\<lambda>x. x"]) (simp add: unit_roundoff_def)

setup_lifting type_definition_rounding

lift_definition exact :: rounding is "\<lambda>x. x"
  by (simp add: unit_roundoff_def)

datatype jsnum = Fin real | PInf | NInf | NaN

fun js_neg :: "jsnum \<Rightarrow> jsnum" where
  "js_neg (Fin a) = Fin (- a)"
| "js_neg PInf = NInf"
| "js_neg NInf = PInf"
| "js_neg NaN = NaN"

fun js_add :: "rounding \<Rightarrow> jsnum \<Rightarrow> jsnum \<Rightarrow> jsnum" where
  "js_add r (Fin a) (Fin b) = Fin (fl r (a + b))"
| "js_add r NaN _ = NaN"
| "js_add r _ NaN = NaN"
| "js_add r PInf NInf = NaN"
| "js_add r NInf PInf = NaN"
| "js_add r PInf _ = PInf"
| "js_add r _ PInf = PInf"
| "js_add r NInf _ = NInf"
| "js_add r _ NInf = NInf"

fun js_mul :: "rounding \<Rightarrow> jsnum \<Rightarrow> jsnum \<Rightarrow> jsnum" where
  "js_mul r (Fin a) (Fin b) = Fin (fl r (a * b))"
| "js_mul r NaN _ = NaN"
| "js_mul r _ NaN = NaN"
| "js_mul r PInf (Fin b) = (if b = 0 then NaN else if 0 < b then PInf else NInf)"
| "js_mul r NInf (Fin b) = (if b = 0 then NaN else if 0 < b then NInf else PInf)"
| "js_mul r (Fin a) PInf = (if a = 0 then NaN else if 0 < a then PInf else NInf)"
| "js_mul r (Fin a) NInf = (if a = 0 then NaN else if 0 < a then NInf else PInf)"
| "js_mul r PInf PInf = PInf"
| "js_mul r NInf NInf = PInf"
| "js_mul r PInf NInf = NInf"
| "js_mul r NInf PInf = NInf"

fun js_div :: "rounding \<Rightarrow> jsnum \<Rightarrow> jsnum \<Rightarrow> jsnum" where
  "js_div r (Fin a) (Fin b) =
     (if b \<noteq> 0 then Fin (fl r (a / b))
      else if 0 < a then PInf else if a < 0 then NInf else NaN)"
| "js_div r NaN _ = NaN"
| "js_div r _ NaN = NaN"
| "js_div r (Fin a) PInf = Fin 0"
| "js_div r (Fin a) NInf = Fin 0"
| "js_div r PInf (Fin b) = (if b < 0 then NInf else PInf)"
| "js_div r NInf (Fin b) = (if b < 0 then PInf else NInf)"
| "js_div r PInf _ = NaN"
| "js_div r NInf _ = NaN"

text \<open>The comparison \<open><\<close>: false as soon as one side is NaN.\<close>

fun js_lt :: "jsnum \<Rightarrow> jsnum \<Rightarrow> bool" where
  "js_lt (Fin a) (Fin b) = (a < b)"
| "js_lt NaN _ = False"
| "js_lt _ NaN = False"
| "js_lt PInf _ = False"
| "js_lt _ PInf = True"
| "js_lt NInf NInf = False"
| "js_lt NInf _ = True"
| "js_lt _ NInf = False"

fun Math_max :: "jsnum \<Rightarrow> jsnum \<Rightarrow> jsnum" where
  "Math_max NaN _ = NaN"
| "Math_max _ NaN = NaN"
| "Math_max a b = (if js_lt a b then b else a)"

fun Math_min :: "jsnum \<Rightarrow> jsnum \<Rightarrow> jsnum" where
  "Math_min NaN _ = NaN"
| "Math_min _ NaN = NaN"
| "Math_min a b = (if js_lt b a then b else a)"

text \<open>\<open>Math.ceil\<close> of a double is a double: nothing is rounded.\<close>

fun Math_ceil :: "jsnum \<Rightarrow> jsnum" where
  "Math_ceil (Fin a) = Fin (of_int \<lceil>a\<rceil>)"
| "Math_ceil x = x"

fun Math_sqrt :: "rounding \<Rightarrow> jsnum \<Rightarrow> jsnum" where
  "Math_sqrt r (Fin a) = (if a < 0 then NaN else Fin (fl r (sqrt a)))"
| "Math_sqrt r PInf = PInf"
| "Math_sqrt r NInf = NaN"
| "Math_sqrt r NaN = NaN"

text \<open>A \<open>for (let v = v0; v < hi; v += inc) body\<close> loop over a state. The loop may run
  forever: not returning is the value \<open>None\<close>, as is a body that does not return.\<close>

partial_function (option) for_loop ::
  "rounding \<Rightarrow> jsnum \<Rightarrow> jsnum \<Rightarrow> jsnum \<Rightarrow> (jsnum \<Rightarrow> 's \<Rightarrow> 's option) \<Rightarrow> 's \<Rightarrow> 's option" where
  "for_loop r v hi inc body s =
     (if js_lt v hi
      then Option.bind (body v s) (\<lambda>s'. for_loop r (js_add r v inc) hi inc body s')
      else Some s)"

section \<open>JavaScript strings\<close>

text \<open>\<open>a || b\<close> on strings: the empty string is falsy.\<close>

definition or_else :: "string \<Rightarrow> string \<Rightarrow> string" where
  "or_else a b = (if a = [] then b else a)"

text \<open>\<open>s.startsWith(p)\<close>.\<close>

definition startsWith :: "string \<Rightarrow> string \<Rightarrow> bool" where
  "startsWith s p = (take (length p) s = p)"

text \<open>\<open>s.split(sep)\<close> for a one-character separator: \<open>"".split(".")\<close> is \<open>[""]\<close>.\<close>

fun split :: "string \<Rightarrow> char \<Rightarrow> string list" where
  "split [] sep = [[]]"
| "split (c # cs) sep =
     (if c = sep then [] # split cs sep
      else (case split cs sep of [] \<Rightarrow> [[c]] | p # ps \<Rightarrow> (c # p) # ps))"

text \<open>\<open>parts.join(sep)\<close>.\<close>

fun join :: "string list \<Rightarrow> string \<Rightarrow> string" where
  "join [] sep = []"
| "join [p] sep = p"
| "join (p # q # ps) sep = p @ sep @ join (q # ps) sep"

text \<open>\<open>parts.pop()\<close>: the last element (\<open>undefined\<close>, here \<open>None\<close>, on an empty array)
  and the array that is left.\<close>

definition pop :: "'a list \<Rightarrow> 'a option \<times> 'a list" where
  "pop xs = (if xs = [] then (None, []) else (Some (last xs), butlast xs))"

section \<open>Files and the download name\<close>

record js_file =
  file_name :: string
  file_type :: string
  file_size :: nat

text \<open>The name computed by \<open>handleDownload\<close>:
  \<^verbatim>\<open>
  const fileNameParts = originalFile.name.split('.');
  const extension = fileNameParts.pop() || 'png'; // Default to png if no extension
  const nameWithoutExtension = fileNameParts.join('.') || 'document';
  link.download = `${nameWithoutExtension}_watermarked.${originalFile.type === 'application/pdf' ? 'png' : extension}`;
  \<close>\<close>

definition download_name :: "js_file \<Rightarrow> string" where
  "download_name originalFile =
     (let (popped, fileNameParts) = pop (split (file_name originalFile) CHR ''.'');
          extension = or_else (case popped of None \<Rightarrow> [] | Some e \<Rightarrow> e) ''png'';
          nameWithoutExtension = or_else (join fileNameParts ''.'') ''document''
      in nameWithoutExtension @ ''_watermarked.'' @
         (if file_type originalFile = ''application/pdf'' then ''png'' else extension))"

section \<open>The canvas\<close>

text \<open>
  The state of a 2D context that \<open>fillText\<close> reads: the font (set from the template
  \<open>bold ${fontSize}px sans-serif\<close>, kept here as its three parts), the fill style, the text
  anchors and the list of transformations applied so far.
\<close>

record css_font =
  font_weight :: string
  font_px :: jsnum
  font_family :: string

datatype xform = Translate jsnum jsnum | Rotate jsnum

record drawing_state =
  font :: css_font
  fillStyle :: string
  textAlign :: string
  textBaseline :: string
  transform :: "xform list"

text \<open>
  An image is its size and the drawing calls that made it, in order: pixels decoded from
  an uploaded file (\<open>Decoded\<close>, named by the file's data), an image drawn into a rectangle,
  or a text drawn at a point under a drawing state. The rectangle of \<open>DrawImage\<close> is in
  the coordinates of the untransformed canvas: the compositor draws its one image before
  it transforms the context. This is a record of calls and not a raster; it is finer than
  the pixels. Two images with the same record have the same pixels, but two different
  records can show the same picture (see \<open>picture\<close> below), so that nothing is concluded
  from two records being different.
\<close>

datatype bitmap = Bitmap (bm_width: nat) (bm_height: nat) (bm_paint: "paint list")
  and paint =
    Decoded string
  | DrawImage bitmap jsnum jsnum jsnum jsnum
  | FillText (text_of: string) (x_of: jsnum) (y_of: jsnum) (state_of: drawing_state)

record canvas =
  width :: nat
  height :: nat
  ctx :: drawing_state
  painted :: "paint list"

text \<open>\<open>document.createElement('canvas')\<close>: a new, blank canvas of the default size with
  the default drawing state.\<close>

definition createElement_canvas :: canvas where
  "createElement_canvas =
     \<lparr>width = 300, height = 150,
      ctx = \<lparr>font = \<lparr>font_weight = ''normal'', font_px = Fin 10, font_family = ''sans-serif''\<rparr>,
             fillStyle = ''#000000'', textAlign = ''start'', textBaseline = ''alphabetic'',
             transform = []\<rparr>,
      painted = []\<rparr>"

definition drawImage :: "bitmap \<Rightarrow> jsnum \<Rightarrow> jsnum \<Rightarrow> jsnum \<Rightarrow> jsnum \<Rightarrow> canvas \<Rightarrow> canvas" where
  "drawImage img dx dy dw dh c = c\<lparr>painted := painted c @ [DrawImage img dx dy dw dh]\<rparr>"

definition fillText :: "string \<Rightarrow> jsnum \<Rightarrow> jsnum \<Rightarrow> canvas \<Rightarrow> canvas" where
  "fillText text x y c = c\<lparr>painted := painted c @ [FillText text x y (ctx c)]\<rparr>"

definition translate :: "jsnum \<Rightarrow> jsnum \<Rightarrow> canvas \<Rightarrow> canvas" where
  "translate x y c = c\<lparr>ctx := (ctx c)\<lparr>transform := transform (ctx c) @ [Translate x y]\<rparr>\<rparr>"

definition rotate :: "jsnum \<Rightarrow> canvas \<Rightarrow> canvas" where
  "rotate a c = c\<lparr>ctx := (ctx c)\<lparr>transform := transform (ctx c) @ [Rotate a]\<rparr>\<rparr>"

text \<open>\<open>canvas.toDataURL('image/png')\<close>: the canvas as an image, of the size of the canvas.
  PNG is lossless; of the image that the data URL encodes, the model keeps the calls that
  painted the canvas, not the pixels they left.\<close>

definition toDataURL :: "canvas \<Rightarrow> bitmap" where
  "toDataURL c = Bitmap (width c) (height c) (painted c)"

text \<open>
  What the browser and the machine decide: whether \<open>getContext('2d')\<close> returns a context
  for a canvas of a given size, the width \<open>measureText\<close> reports for a text under a font
  (a finite number), whether a data URL loads as an image (\<open>onload\<close>) or not (\<open>onerror\<close>),
  and the rounding of the arithmetic.
\<close>

record env =
  getContext :: "nat \<Rightarrow> nat \<Rightarrow> bool"
  measureText :: "css_font \<Rightarrow> string \<Rightarrow> real"
  loadImage :: "string \<Rightarrow> bitmap option"
  fp :: rounding

section \<open>The compositor\<close>

text \<open>The \<open>try\<close> block of \<open>img.onload\<close> in \<open>applyWatermark\<close> (the same text in
  \<^verbatim>\<open>src/app/page.tsx\<close> and in \<^verbatim>\<open>unnamed/part_000\<close>), one definition for
  each \<open>const\<close>, with \<open>w\<close> and \<open>h\<close> for \<open>canvas.width\<close> and \<open>canvas.height\<close> and \<open>r\<close> for
  the rounding. The literals \<open>12\<close>, \<open>25\<close>, \<open>5\<close>, \<open>2\<close>, \<open>4\<close> and \<open>2.5\<close> are doubles; \<open>0.7\<close> and
  \<open>Math.PI\<close> stand for the doubles nearest to them.
  \<^verbatim>\<open>
  const fontSize = Math.max(12, Math.min(canvas.width, canvas.height) / 25);
  const diagonalLength = Math.sqrt(canvas.width * canvas.width + canvas.height * canvas.height);
  const repetitions = Math.ceil(diagonalLength / (textWidth * 0.7));
  const step = diagonalLength / Math.max(5, repetitions);
  \<close>\<close>

definition fontSize :: "rounding \<Rightarrow> nat \<Rightarrow> nat \<Rightarrow> jsnum" where
  "fontSize r w h =
     Math_max (Fin 12) (js_div r (Math_min (Fin (real w)) (Fin (real h))) (Fin 25))"

definition diagonalLength :: "rounding \<Rightarrow> nat \<Rightarrow> nat \<Rightarrow> jsnum" where
  "diagonalLength r w h =
     Math_sqrt r (js_add r (js_mul r (Fin (real w)) (Fin (real w)))
                           (js_mul r (Fin (real h)) (Fin (real h))))"

text \<open>The font \<^verbatim>\<open>`bold ${fontSize}px sans-serif`\<close>.\<close>

definition bold_sans_serif :: "jsnum \<Rightarrow> css_font" where
  "bold_sans_serif px = \<lparr>font_weight = ''bold'', font_px = px, font_family = ''sans-serif''\<rparr>"

definition repetitions :: "rounding \<Rightarrow> jsnum \<Rightarrow> jsnum \<Rightarrow> jsnum" where
  "repetitions r d textWidth = Math_ceil (js_div r d (js_mul r textWidth (Fin (fl r 0.7))))"

definition step :: "rounding \<Rightarrow> jsnum \<Rightarrow> jsnum \<Rightarrow> jsnum" where
  "step r d reps = js_div r d (Math_max (Fin 5) reps)"

text \<open>The two nested loops:
  \<^verbatim>\<open>
  for (let y = -diagonalLength / 2; y < diagonalLength / 2; y += step) {
    for (let x = -diagonalLength / 2; x < diagonalLength / 2; x += step * 2.5) {
       ctx.fillText(text, x, y);
    }
  }
  \<close>\<close>

definition tile :: "rounding \<Rightarrow> string \<Rightarrow> jsnum \<Rightarrow> jsnum \<Rightarrow> canvas \<Rightarrow> canvas option" where
  "tile r text d st c =
     for_loop r (js_div r (js_neg d) (Fin 2)) (js_div r d (Fin 2)) st
       (\<lambda>y. for_loop r (js_div r (js_neg d) (Fin 2)) (js_div r d (Fin 2)) (js_mul r st (Fin 2.5))
               (\<lambda>x c'. Some (fillText text x y c')))
       c"

datatype js_error = Error string

text \<open>
  The whole block, from \<open>createElement\<close> to \<open>toDataURL\<close>. \<open>Inl\<close> is the exception thrown
  when there is no context, \<open>Inr\<close> the image handed to \<open>setWatermarkedImageSrc\<close>, and
  \<open>None\<close> a block that never returns. The canvas calls themselves do not throw: the image
  has loaded, and a canvas drawn from a data URL is not tainted.
\<close>

definition composite :: "env \<Rightarrow> bitmap \<Rightarrow> string \<Rightarrow> (js_error + bitmap) option" where
  "composite e img watermarkText =
     (let r = fp e;
          canvas = createElement_canvas\<lparr>width := bm_width img, height := bm_height img\<rparr> in
      if \<not> getContext e (width canvas) (height canvas)
      then Some (Inl (Error ''Could not get canvas context.''))
      else
        let c1 = drawImage img (Fin 0) (Fin 0)
                   (Fin (real (width canvas))) (Fin (real (height canvas))) canvas;
            text = or_else watermarkText ''CONFIDENTIAL'';
            c2 = c1\<lparr>ctx := (ctx c1)
                   \<lparr>font := bold_sans_serif (fontSize r (width c1) (height c1)),
                    fillStyle := ''rgba(128, 128, 128, 0.35)'',
                    textAlign := ''center'',
                    textBaseline := ''middle''\<rparr>\<rparr>;
            angle = js_div r (js_neg (Fin (fl r pi))) (Fin 4);
            textWidth = Fin (measureText e (font (ctx c2)) text);
            d = diagonalLength r (width c2) (height c2);
            st = step r d (repetitions r d textWidth);
            c3 = rotate angle
                   (translate (js_div r (Fin (real (width c2))) (Fin 2))
                              (js_div r (Fin (real (height c2))) (Fin 2)) c2)
        in Option.bind (tile r text d st c3)
             (\<lambda>c4. let c5 = translate (js_div r (js_neg (Fin (real (width c4)))) (Fin 2))
                                       (js_div r (js_neg (Fin (real (height c4)))) (Fin 2))
                                       (rotate (js_neg angle) c4)
                    in Some (Inr (toDataURL c5))))"

text \<open>
  The points \<open>(x, y)\<close> that the two loops visit in exact arithmetic when the step is finite
  and positive, row by row, in closed form: row \<open>k\<close> is at \<open>y = -d/2 + k * step\<close> and holds
  the points \<open>x = -d/2 + j * (step * 2.5)\<close>. It serves to evaluate the loops on the inputs
  of the examples, a \<open>3 \<times> 4\<close> source with a measured width of \<open>10\<close>: there the diagonal
  is \<open>5\<close>, \<open>repetitions\<close> is \<open>1\<close>, the step is \<open>1\<close>, and every \<open>x\<close> and \<open>y\<close> is a multiple of
  \<open>1/2\<close>, in doubles as in exact arithmetic (and a \<open>0 \<times> 0\<close> source, where no loop runs).
  No general statement rests on it.
\<close>

definition grid :: "real \<Rightarrow> real \<Rightarrow> (jsnum \<times> jsnum) list list" where
  "grid d st =
     map (\<lambda>k. map (\<lambda>j. (Fin (- d / 2 + real j * (st * 2.5)), Fin (- d / 2 + real k * st)))
               [0..<nat \<lceil>d / (st * 2.5)\<rceil>])
         [0..<nat \<lceil>d / st\<rceil>]"

text \<open>
  The text calls behind an image, bottom layer first: those of every image drawn onto it
  and those made on it.
\<close>

primrec layers :: "bitmap \<Rightarrow> paint list" and paint_layers :: "paint \<Rightarrow> paint list" where
  "layers (Bitmap w h ps) = concat (map paint_layers ps)"
| "paint_layers (Decoded s) = []"
| "paint_layers (DrawImage b dx dy dw dh) = layers b"
| "paint_layers (FillText t x y s) = [FillText t x y s]"

text \<open>
  The picture an image shows, as far as the calls decide it: an image of no area shows
  nothing; an image drawn whole, at the origin and at its own size, shows what it shows;
  a text none of whose characters has a glyph (here: blanks) adds nothing. Two images with
  the same picture have the same pixels. The converse is not claimed: a visible text can
  still leave every pixel as it was.
\<close>

definition blank :: "string \<Rightarrow> bool" where
  "blank t = list_all (\<lambda>c. c = CHR '' '') t"

primrec picture :: "bitmap \<Rightarrow> paint list" and paint_picture :: "paint \<Rightarrow> paint list" where
  "picture (Bitmap w h ps) = (if w = 0 \<or> h = 0 then [] else concat (map paint_picture ps))"
| "paint_picture (Decoded s) = [Decoded s]"
| "paint_picture (DrawImage b dx dy dw dh) =
     (if dx = Fin 0 \<and> dy = Fin 0 \<and> dw = Fin (real (bm_width b)) \<and> dh = Fin (real (bm_height b))
      then picture b else [DrawImage b dx dy dw dh])"
| "paint_picture (FillText t x y s) = (if blank t then [] else [FillText t x y s])"

section \<open>The page state and its handlers\<close>

record toast_msg =
  title :: string
  description :: string
  destructive :: bool

text \<open>
  The \<open>useState\<close> variables of \<open>IdMarkPage\<close>, the toasts shown so far, the value of the
  file input and the \<open>src\<close> of the hidden image that the first copy of the page in
  \<^verbatim>\<open>src/app/page.tsx\<close> keeps in \<open>originalImageRef\<close>. The watermarked data URL is kept as the
  image it encodes. The setters called in one handler are record updates in the order of
  the calls.
\<close>

record app_state =
  originalFile :: "js_file option"
  originalImagePreviewSrc :: "string option"
  watermarkText :: string
  watermarkedImageSrc :: "bitmap option"
  isLoading :: bool
  progress :: nat
  error :: "string option"
  toasts :: "toast_msg list"
  fileInputValue :: string
  originalImageRefSrc :: string

definition toast :: "string \<Rightarrow> string \<Rightarrow> bool \<Rightarrow> app_state \<Rightarrow> app_state" where
  "toast t d v st = st\<lparr>toasts := toasts st @ [\<lparr>title = t, description = d, destructive = v\<rparr>]\<rparr>"

text \<open>\<open>resetState\<close> of \<^verbatim>\<open>unnamed/part_000\<close>.\<close>

definition resetState :: "app_state \<Rightarrow> app_state" where
  "resetState st =
     st\<lparr>originalFile := None, originalImagePreviewSrc := None, watermarkedImageSrc := None,
        isLoading := False, progress := 0, error := None, fileInputValue := []\<rparr>"

text \<open>\<open>handleFileChange\<close> of \<^verbatim>\<open>unnamed/part_000\<close>; the argument is
  \<open>event.target.files?.[0]\<close>.\<close>

definition handleFileChange :: "js_file option \<Rightarrow> app_state \<Rightarrow> app_state" where
  "handleFileChange file st =
     (let st1 = resetState st in
      case file of
        None \<Rightarrow> st1
      | Some f \<Rightarrow>
          if file_type f \<noteq> ''application/pdf'' \<and> \<not> startsWith (file_type f) ''image/''
          then
            let errText = ''Unsupported file type. Please upload an image (PNG, JPG) or PDF.''
            in toast ''Unsupported File'' errText True (st1\<lparr>error := Some errText\<rparr>)
          else if file_size f > 20 * 1024 * 1024
          then
            let errText = ''File is too large. Maximum size is 20MB.''
            in toast ''Error'' errText True (st1\<lparr>error := Some errText\<rparr>)
          else st1\<lparr>originalFile := Some f\<rparr>)"

text \<open>\<open>resetState\<close> and \<open>handleFileChange\<close> of the first copy in \<^verbatim>\<open>src/app/page.tsx\<close>:
  the preview is left to the effect on \<open>originalFile\<close>, the hidden image is cleared, and the
  rejecting branches set \<open>originalFile\<close> to null once more.\<close>

definition resetState_page :: "app_state \<Rightarrow> app_state" where
  "resetState_page st =
     st\<lparr>originalFile := None, watermarkedImageSrc := None,
        isLoading := False, progress := 0, error := None,
        originalImageRefSrc := [], fileInputValue := []\<rparr>"

definition handleFileChange_page :: "js_file option \<Rightarrow> app_state \<Rightarrow> app_state" where
  "handleFileChange_page file st =
     (let st1 = resetState_page st in
      case file of
        None \<Rightarrow> st1\<lparr>originalFile := None\<rparr>
      | Some f \<Rightarrow>
          if file_type f \<noteq> ''application/pdf'' \<and> \<not> startsWith (file_type f) ''image/''
          then
            (toast ''Unsupported File'' ''Please upload an image (PNG, JPG) or PDF.'' True
               (st1\<lparr>error := Some ''Unsupported file type. Please upload an image (PNG, JPG) or PDF.''\<rparr>))
            \<lparr>originalFile := None\<rparr>
          else if file_size f > 20 * 1024 * 1024
          then
            (toast ''Error'' ''File is too large. Maximum size is 20MB.'' True
               (st1\<lparr>error := Some ''File is too large. Maximum size is 20MB.''\<rparr>))
            \<lparr>originalFile := None\<rparr>
          else st1\<lparr>originalFile := Some f\<rparr>)"

text \<open>
  The effect on \<open>originalFile\<close>, up to \<open>reader.readAsDataURL(originalFile)\<close>: the new state
  and the file handed to the reader, if any. Reading, PDF rendering and decoding happen
  in the reader's callbacks and only for that file; they are not modelled.
\<close>

definition fileEffect :: "app_state \<Rightarrow> app_state \<times> js_file option" where
  "fileEffect st =
     (case originalFile st of
        None \<Rightarrow> (st\<lparr>originalImagePreviewSrc := None\<rparr>, None)
      | Some f \<Rightarrow> (st\<lparr>isLoading := True, progress := 10, error := None\<rparr>, Some f))"

text \<open>
  \<open>img.onload\<close> of \<open>applyWatermark\<close> in \<^verbatim>\<open>unnamed/part_000\<close>: the \<open>try\<close> block is
  \<open>composite\<close>, then \<open>catch\<close> and \<open>finally\<close>. The exception is thrown before the first
  \<open>setProgress\<close> of the block, so \<open>catch\<close> finds the progress as it was. A block that does
  not return leaves no state (\<open>None\<close>).
\<close>

definition img_onload :: "env \<Rightarrow> bitmap \<Rightarrow> app_state \<Rightarrow> app_state option" where
  "img_onload e img st =
     (case composite e img (watermarkText st) of
        None \<Rightarrow> None
      | Some (Inr url) \<Rightarrow>
          Some ((toast ''Success'' ''Watermark applied successfully!'' False
                  (st\<lparr>watermarkedImageSrc := Some url, progress := 100\<rparr>))
                \<lparr>isLoading := False\<rparr>)
      | Some (Inl (Error message)) \<Rightarrow>
          (let errorMessage = or_else message ''Failed to apply watermark.''
           in Some ((toast ''Watermark Error'' errorMessage True (st\<lparr>error := Some errorMessage\<rparr>))
                    \<lparr>watermarkedImageSrc := None, isLoading := False\<rparr>)))"

text \<open>The same handler in the first copy in \<^verbatim>\<open>src/app/page.tsx\<close>, whose \<open>finally\<close> also
  resets the progress.\<close>

definition img_onload_page :: "env \<Rightarrow> bitmap \<Rightarrow> app_state \<Rightarrow> app_state option" where
  "img_onload_page e img st =
     (case composite e img (watermarkText st) of
        None \<Rightarrow> None
      | Some (Inr url) \<Rightarrow>
          Some ((toast ''Success'' ''Watermark applied successfully!'' False
                  (st\<lparr>watermarkedImageSrc := Some url, progress := 100\<rparr>))
                \<lparr>isLoading := False, progress := 0\<rparr>)
      | Some (Inl (Error message)) \<Rightarrow>
          (let errorMessage = or_else message ''Failed to apply watermark.''
           in Some ((toast ''Watermark Error'' errorMessage True (st\<lparr>error := Some errorMessage\<rparr>))
                    \<lparr>watermarkedImageSrc := None, isLoading := False, progress := 0\<rparr>)))"

text \<open>\<open>img.onerror\<close>, the same in both.\<close>

definition img_onerror :: "app_state \<Rightarrow> app_state" where
  "img_onerror st =
     (toast ''Watermark Error''
        ''Failed to load image for watermarking. Please try again or use a different file.'' True
        (st\<lparr>error := Some (''Failed to load image for watermarking. The image data might be '' @
              ''corrupted or the format is unsupported by the browser for canvas operations.'')\<rparr>))
     \<lparr>isLoading := False, progress := 0, watermarkedImageSrc := None\<rparr>"

text \<open>
  \<open>applyWatermark\<close> of \<^verbatim>\<open>unnamed/part_000\<close>, with the image event that follows
  \<open>img.src = originalImagePreviewSrc\<close>: \<open>onload\<close> when the browser decodes the preview,
  \<open>onerror\<close> when it does not. An empty preview string is falsy, like null.
\<close>

definition applyWatermark :: "env \<Rightarrow> app_state \<Rightarrow> app_state option" where
  "applyWatermark e st =
     (case originalImagePreviewSrc st of
        None \<Rightarrow>
          Some (toast ''Watermark Error'' ''No image preview. Please re-upload.'' True
                  (st\<lparr>error := Some ''Original image not loaded or no preview available for watermarking.''\<rparr>))
      | Some src \<Rightarrow>
          if src = []
          then Some (toast ''Watermark Error'' ''No image preview. Please re-upload.'' True
                  (st\<lparr>error := Some ''Original image not loaded or no preview available for watermarking.''\<rparr>))
          else
            (let st1 = st\<lparr>isLoading := True, error := None, progress := 0\<rparr>
             in case loadImage e src of
                  None \<Rightarrow> Some (img_onerror st1)
                | Some img \<Rightarrow> img_onload e img st1))"

section \<open>Rounding\<close>

lemma fl_mono: "x \<le> y \<Longrightarrow> fl r x \<le> fl r y"
  using fl [of r] by blast

lemma fl_idem [simp]: "fl r (fl r x) = fl r x"
  using fl [of r] by blast

lemma fl_minus: "fl r (- x) = - fl r x"
  using fl [of r] by blast

lemma fl_zero [simp]: "fl r 0 = 0"
  using fl_minus [of r 0] by simp

lemma fl_error: "min_normal \<le> \<bar>x\<bar> \<Longrightarrow> \<bar>fl r x - x\<bar> \<le> \<bar>x\<bar> * unit_roundoff"
  using fl [of r] by blast

lemma fl_exact [simp]: "fl exact x = x"
  by transfer simp


lemma fl_nonpos: "x \<le> 0 \<Longrightarrow> fl r x \<le> 0"
  using fl_mono [of x 0 r] by simp

lemma min_normal_small: "0 < min_normal" "min_normal \<le> 1 / 2 ^ 100"
proof -
  show "0 < min_normal" by (simp add: min_normal_def)
  have "(2::real) ^ 100 \<le> 2 ^ 1022" by (rule power_increasing) simp_all
  then show "min_normal \<le> 1 / 2 ^ 100"
    unfolding min_normal_def by (intro divide_left_mono) simp_all
qed

lemma unit_roundoff_small: "0 < unit_roundoff" "unit_roundoff \<le> 1 / 1000"
  by (simp_all add: unit_roundoff_def)

text \<open>The error of a value that is not tiny, loosely and tightly.\<close>

lemma fl_near:
  assumes "1 / 2 ^ 100 \<le> \<bar>x\<bar>"
  shows "\<bar>fl r x - x\<bar> \<le> \<bar>x\<bar> / 1000" and "\<bar>fl r x - x\<bar> \<le> \<bar>x\<bar> / 2 ^ 53"
proof -
  from assms min_normal_small(2) have "min_normal \<le> \<bar>x\<bar>" by linarith
  from fl_error [OF this] have e: "\<bar>fl r x - x\<bar> \<le> \<bar>x\<bar> * unit_roundoff" .
  then show "\<bar>fl r x - x\<bar> \<le> \<bar>x\<bar> / 2 ^ 53" by (simp add: unit_roundoff_def)
  have "\<bar>x\<bar> * unit_roundoff \<le> \<bar>x\<bar> * (1 / 1000)"
    by (intro mult_left_mono unit_roundoff_small) simp
  with e show "\<bar>fl r x - x\<bar> \<le> \<bar>x\<bar> / 1000" by simp
qed

text \<open>Bounds through monotonicity: the argument need not be known, only a bound of it.\<close>

lemma fl_upper:
  assumes "a \<le> b" and "1 / 2 ^ 100 \<le> \<bar>b\<bar>"
  shows "fl r a \<le> b + \<bar>b\<bar> / 1000"
proof -
  from fl_near(1) [OF assms(2), of r] have "fl r b \<le> b + \<bar>b\<bar> / 1000" by linarith
  with fl_mono [OF assms(1), of r] show ?thesis by linarith
qed

lemma fl_lower:
  assumes "b \<le> a" and "1 / 2 ^ 100 \<le> \<bar>b\<bar>"
  shows "b - \<bar>b\<bar> / 1000 \<le> fl r a"
proof -
  from fl_near(1) [OF assms(2), of r] have "b - \<bar>b\<bar> / 1000 \<le> fl r b" by linarith
  with fl_mono [OF assms(1), of r] show ?thesis by linarith
qed

text \<open>The error of any value: a tiny one rounds to a tiny one.\<close>

lemma fl_error_any: "\<bar>fl r x - x\<bar> \<le> \<bar>x\<bar> / 2 ^ 53 + 3 / 2 ^ 100"
proof (cases "1 / 2 ^ 100 \<le> \<bar>x\<bar>")
  case True
  from fl_near(2) [OF this, of r] show ?thesis by simp
next
  case False
  define t :: real where "t = 1 / 2 ^ 100"
  have tpos: "0 < t" by (simp add: t_def)
  from False have x: "- t \<le> x" "x \<le> t" unfolding t_def by linarith+
  have "\<bar>fl r t - t\<bar> \<le> \<bar>t\<bar> / 1000"
    by (rule fl_near(1)) (simp add: t_def)
  with tpos have t: "fl r t \<le> 2 * t" by linarith
  from fl_mono [OF x(2), of r] t have up: "fl r x \<le> 2 * t" by simp
  from fl_mono [OF x(1), of r] t have lo: "- (2 * t) \<le> fl r x"
    by (simp add: fl_minus)
  from up lo x have "\<bar>fl r x - x\<bar> \<le> 3 * t" by linarith
  moreover have "0 \<le> \<bar>x\<bar> / 2 ^ 53" by simp
  ultimately show ?thesis unfolding t_def by linarith
qed

section \<open>Loops\<close>

text \<open>What the body keeps, the loop keeps.\<close>

lemma for_loop_inv:
  assumes run: "for_loop r v hi inc body s = Some res" and s: "I s"
    and pres: "\<And>v s s'. I s \<Longrightarrow> body v s = Some s' \<Longrightarrow> I s'"
  shows "I res"
proof -
  have "b = body \<longrightarrow> I s \<longrightarrow> I res" if "for_loop r v hi inc b s = Some res" for b
    using that
  proof (rule for_loop.raw_induct
      [where P = "\<lambda>r v hi inc b s res. b = body \<longrightarrow> I s \<longrightarrow> I res", rotated])
    fix f r v hi inc b s res
    assume IH: "\<And>r v hi inc b s res. f r v hi inc b s = Some res \<Longrightarrow> b = body \<longrightarrow> I s \<longrightarrow> I res"
      and unfolded: "(if js_lt v hi
          then Option.bind (b v s) (f r (js_add r v inc) hi inc b) else Some s) = Some res"
    show "b = body \<longrightarrow> I s \<longrightarrow> I res"
    proof (intro impI)
      assume eq: "b = body" and s: "I s"
      show "I res"
      proof (cases "js_lt v hi")
        case True
        with unfolded obtain s' where b: "b v s = Some s'"
          and f: "f r (js_add r v inc) hi inc b s' = Some res"
          by (auto simp: bind_eq_Some_conv)
        from pres s b eq have "I s'" by blast
        with IH [OF f] eq show ?thesis by blast
      next
        case False
        with unfolded s show ?thesis by simp
      qed
    qed
  qed
  from this [OF run] s show ?thesis by blast
qed

text \<open>A loop whose variable passes the test and is left as it is by the increment never
  returns.\<close>

lemma for_loop_stall:
  assumes lt: "js_lt v hi" and same: "js_add r v inc = v"
  shows "for_loop r v hi inc body s = None"
proof (cases "for_loop r v hi inc body s")
  case None
  then show ?thesis .
next
  case (Some res)
  then have "\<not> (js_lt v hi \<and> js_add r v inc = v)"
  proof (rule for_loop.raw_induct
      [where P = "\<lambda>r v hi inc body s res. \<not> (js_lt v hi \<and> js_add r v inc = v)", rotated])
    fix f r v hi inc and body :: "jsnum \<Rightarrow> 'a \<Rightarrow> 'a option" and s res
    assume IH: "\<And>r v hi inc (body :: jsnum \<Rightarrow> 'a \<Rightarrow> 'a option) s res.
        f r v hi inc body s = Some res \<Longrightarrow> \<not> (js_lt v hi \<and> js_add r v inc = v)"
      and unfolded: "(if js_lt v hi
          then Option.bind (body v s) (f r (js_add r v inc) hi inc body) else Some s) = Some res"
    show "\<not> (js_lt v hi \<and> js_add r v inc = v)"
    proof
      assume stall: "js_lt v hi \<and> js_add r v inc = v"
      with unfolded obtain s' where "f r v hi inc body s' = Some res"
        by (auto simp: bind_eq_Some_conv)
      from IH [OF this] stall show False by blast
    qed
  qed
  with lt same show ?thesis by blast
qed

lemma for_loop_exit: "\<not> js_lt v hi \<Longrightarrow> for_loop r v hi inc body s = Some s"
  by (subst for_loop.simps) simp

text \<open>One turn of a loop that returns.\<close>

lemma for_loop_turn:
  assumes "for_loop r v hi inc body s = Some res" and "js_lt v hi"
  obtains s' where "body v s = Some s'" and "for_loop r (js_add r v inc) hi inc body s' = Some res"
  using assms by (subst (asm) for_loop.simps) (auto simp: bind_eq_Some_conv)

lemma fillText_fields [simp]:
  "width (fillText t x y c) = width c" "height (fillText t x y c) = height c"
  "ctx (fillText t x y c) = ctx c"
  "painted (fillText t x y c) = painted c @ [FillText t x y (ctx c)]"
  by (simp_all add: fillText_def)

text \<open>What every run of the two loops keeps.\<close>

lemma tile_inv:
  assumes run: "tile r t d st c = Some c'"
  shows "width c' = width c \<and> height c' = height c \<and> ctx c' = ctx c \<and>
         (\<exists>ts. painted c' = painted c @ ts \<and>
               (\<forall>p \<in> set ts. \<exists>x y. p = FillText t x y (ctx c)))"
proof -
  define I where "I = (\<lambda>s :: canvas. width s = width c \<and> height s = height c \<and> ctx s = ctx c \<and>
         (\<exists>ts. painted s = painted c @ ts \<and>
               (\<forall>p \<in> set ts. \<exists>x y. p = FillText t x y (ctx c))))"
  have step: "I (fillText t x y s)" if "I s" for x y s
  proof -
    from that obtain ts where ts: "painted s = painted c @ ts"
      "\<forall>p \<in> set ts. \<exists>x y. p = FillText t x y (ctx c)" and cs: "ctx s = ctx c"
      unfolding I_def by blast
    have "painted (fillText t x y s) = painted c @ (ts @ [FillText t x y (ctx c)])"
      by (simp add: ts cs)
    moreover have "\<forall>p \<in> set (ts @ [FillText t x y (ctx c)]). \<exists>x y. p = FillText t x y (ctx c)"
      using ts(2) by auto
    ultimately have "\<exists>ts. painted (fillText t x y s) = painted c @ ts \<and>
               (\<forall>p \<in> set ts. \<exists>x y. p = FillText t x y (ctx c))"
      by blast
    with that show ?thesis unfolding I_def by simp
  qed
  have row: "I s'" if "I s" and
    "for_loop r lo hi inc (\<lambda>x c'. Some (fillText t x y c')) s = Some s'" for lo hi inc y s s'
    using that(2,1)
  proof (rule for_loop_inv)
    fix v s s'
    assume "I s" and "Some (fillText t v y s) = Some s'"
    with step [of s v y] show "I s'" by simp
  qed
  have "I c" unfolding I_def by simp
  with run [unfolded tile_def] have "I c'"
  proof (rule for_loop_inv)
    fix v s s'
    assume "I s" and "for_loop r (js_div r (js_neg d) (Fin 2)) (js_div r d (Fin 2))
               (js_mul r st (Fin 2.5)) (\<lambda>x c'. Some (fillText t x v c')) s = Some s'"
    then show "I s'" by (rule row)
  qed
  then show ?thesis unfolding I_def .
qed

lemma for_loop_grows:
  assumes run: "for_loop r v hi inc body s = Some res" and s: "n \<le> length (painted s)"
    and pres: "\<And>v s s'. n \<le> length (painted s) \<Longrightarrow> body v s = Some s' \<Longrightarrow> n \<le> length (painted s')"
  shows "n \<le> length (painted res)"
  using run s pres by (rule for_loop_inv [where I = "\<lambda>s. n \<le> length (painted s)"])

text \<open>A run whose first test succeeds paints at least one text: both loops start from
  the same value and test it against the same bound.\<close>

lemma tile_grows:
  assumes run: "tile r t d st c = Some c'"
    and lt: "js_lt (js_div r (js_neg d) (Fin 2)) (js_div r d (Fin 2))"
  shows "length (painted c) < length (painted c')"
proof -
  let ?lo = "js_div r (js_neg d) (Fin 2)" and ?hi = "js_div r d (Fin 2)"
  let ?row = "\<lambda>y. for_loop r ?lo ?hi (js_mul r st (Fin 2.5)) (\<lambda>x c'. Some (fillText t x y c'))"
  have row_mono: "n \<le> length (painted s')"
    if "?row y s = Some s'" "n \<le> length (painted s)" for y s s' n
    using that by (rule for_loop_grows) auto
  from run have "for_loop r ?lo ?hi st ?row c = Some c'"
    unfolding tile_def .
  from this lt obtain c1 where first: "?row ?lo c = Some c1"
    and rest: "for_loop r (js_add r ?lo st) ?hi st ?row c1 = Some c'"
    by (rule for_loop_turn)
  from first lt obtain c0 where "Some (fillText t ?lo ?lo c) = Some c0" and
    "for_loop r (js_add r ?lo (js_mul r st (Fin 2.5))) ?hi (js_mul r st (Fin 2.5))
       (\<lambda>x c'. Some (fillText t x ?lo c')) c0 = Some c1"
    by (rule for_loop_turn)
  then have "for_loop r (js_add r ?lo (js_mul r st (Fin 2.5))) ?hi (js_mul r st (Fin 2.5))
       (\<lambda>x c'. Some (fillText t x ?lo c')) (fillText t ?lo ?lo c) = Some c1"
    by simp
  then have "Suc (length (painted c)) \<le> length (painted c1)"
    by (rule for_loop_grows) auto
  with rest have "Suc (length (painted c)) \<le> length (painted c')"
    by (rule for_loop_grows [where body = ?row, OF _ _ row_mono])
  then show ?thesis by simp
qed

section \<open>Loops in exact arithmetic\<close>

text \<open>With nothing rounded and a finite positive increment, the loop visits
  \<open>lo, lo + inc, lo + 2 * inc, \<dots>\<close> below \<open>hi\<close> and returns.\<close>

lemma for_loop_fin:
  assumes inc: "0 < inc" and body: "\<And>v s. body v s = Some (g v s)"
  shows "for_loop exact (Fin lo) (Fin hi) (Fin inc) body s =
         Some (fold g (map (\<lambda>k. Fin (lo + real k * inc)) [0..<nat \<lceil>(hi - lo) / inc\<rceil>]) s)"
proof (induction "nat \<lceil>(hi - lo) / inc\<rceil>" arbitrary: lo s)
  case 0
  then have "(hi - lo) / inc \<le> 0" by simp
  with inc have "\<not> lo < hi" by (simp add: divide_le_0_iff)
  with 0 show ?case by (subst for_loop.simps) simp
next
  case (Suc n)
  then have pos: "0 < (hi - lo) / inc" by linarith
  with inc have lt: "lo < hi" by (simp add: zero_less_divide_iff)
  have "(hi - (lo + inc)) / inc = (hi - lo) / inc - 1"
    using inc by (simp add: field_simps)
  then have n: "n = nat \<lceil>(hi - (lo + inc)) / inc\<rceil>"
    using Suc(2) by simp
  have shift: "map (\<lambda>k. Fin (lo + real k * inc)) [0..<Suc n] =
        Fin lo # map (\<lambda>k. Fin (lo + inc + real k * inc)) [0..<n]"
    by (simp add: upt_conv_Cons map_Suc_upt [symmetric] algebra_simps del: upt_Suc)
  show ?case
    apply (subst for_loop.simps)
    apply (simp only: Suc(2) [symmetric] shift)
    apply (simp add: lt body Suc(1) [OF n] n [symmetric])
    done
qed

lemma fold_fillText:
  "fold (\<lambda>x. fillText t x y) xs c =
     c\<lparr>painted := painted c @ map (\<lambda>x. FillText t x y (ctx c)) xs\<rparr>"
  by (induction xs arbitrary: c) (simp_all add: fillText_def)

lemma fold_rows:
  "fold (\<lambda>y. fold (\<lambda>x. fillText t x y) xs) ys c =
     c\<lparr>painted := painted c @ concat (map (\<lambda>y. map (\<lambda>x. FillText t x y (ctx c)) xs) ys)\<rparr>"
  by (induction ys arbitrary: c) (simp_all add: fold_fillText)

lemma tile_fin:
  fixes st d :: real
  assumes st: "0 < st"
  shows "tile exact t (Fin d) (Fin st) c =
    Some (c\<lparr>painted := painted c @
      map (\<lambda>(x, y). FillText t x y (ctx c)) (concat (grid d st))\<rparr>)"
proof -
  define xs where "xs = map (\<lambda>j. Fin (- d / 2 + real j * (st * 2.5))) [0..<nat \<lceil>d / (st * 2.5)\<rceil>]"
  define ys where "ys = map (\<lambda>k. Fin (- d / 2 + real k * st)) [0..<nat \<lceil>d / st\<rceil>]"
  have span: "d / 2 - - d / 2 = d" by simp
  have inner: "for_loop exact (Fin (- d / 2)) (Fin (d / 2)) (Fin (st * 2.5))
                 (\<lambda>x c'. Some (fillText t x y c')) c' =
               Some (fold (\<lambda>x. fillText t x y) xs c')" for y c'
  proof -
    from st have "0 < st * 2.5" by simp
    from for_loop_fin [OF this, of "\<lambda>x c'. Some (fillText t x y c')" "\<lambda>x. fillText t x y"
        "- d / 2" "d / 2" c']
    show ?thesis unfolding xs_def span by simp
  qed
  have outer: "for_loop exact (Fin (- d / 2)) (Fin (d / 2)) (Fin st)
       (\<lambda>y. for_loop exact (Fin (- d / 2)) (Fin (d / 2)) (Fin (st * 2.5))
               (\<lambda>x c'. Some (fillText t x y c'))) c =
       Some (fold (\<lambda>y. fold (\<lambda>x. fillText t x y) xs) ys c)"
    using for_loop_fin [OF st, of
        "\<lambda>y. for_loop exact (Fin (- d / 2)) (Fin (d / 2)) (Fin (st * 2.5))
               (\<lambda>x c'. Some (fillText t x y c'))"
        "\<lambda>y. fold (\<lambda>x. fillText t x y) xs" "- d / 2" "d / 2" c, OF inner]
    unfolding ys_def span .
  have args: "js_div exact (js_neg (Fin d)) (Fin 2) = Fin (- d / 2)"
    "js_div exact (Fin d) (Fin 2) = Fin (d / 2)"
    "js_mul exact (Fin st) (Fin 2.5) = Fin (st * 2.5)"
    by simp_all
  have "concat (map (\<lambda>y. map (\<lambda>x. FillText t x y (ctx c)) xs) ys) =
        map (\<lambda>(x, y). FillText t x y (ctx c)) (concat (grid d st))"
    unfolding xs_def ys_def grid_def by (simp add: map_concat comp_def)
  then show ?thesis
    unfolding tile_def args outer fold_rows by simp
qed

section \<open>The diagonal and the step\<close>

lemma fl_pos_bounds:
  assumes "x = 0 \<or> 1 / 2 ^ 100 \<le> x"
  shows "999 / 1000 * x \<le> fl r x" and "fl r x \<le> 1001 / 1000 * x"
proof -
  have "999 / 1000 * x \<le> fl r x \<and> fl r x \<le> 1001 / 1000 * x"
  proof (cases "x = 0")
    case True
    then show ?thesis by simp
  next
    case False
    with assms have x: "1 / 2 ^ 100 \<le> x" by simp
    have "(0::real) < 1 / 2 ^ 100" by simp
    with x have "0 < x" by linarith
    then have ax: "\<bar>x\<bar> = x" by simp
    from x have "1 / 2 ^ 100 \<le> \<bar>x\<bar>" by simp
    from fl_near(1) [OF this, of r] have "\<bar>fl r x - x\<bar> \<le> x / 1000" unfolding ax .
    then show ?thesis by argo
  qed
  then show "999 / 1000 * x \<le> fl r x" and "fl r x \<le> 1001 / 1000 * x" by simp_all
qed

lemma nat_square_cases: "real w * real w = 0 \<or> 1 \<le> real w * real w"
proof (cases "w = 0")
  case False
  then have "1 \<le> real w" by simp
  then have "1 * 1 \<le> real w * real w" by (intro mult_mono) simp_all
  then show ?thesis by simp
qed simp

text \<open>The diagonal of a canvas of positive width is a finite number, at least \<open>1/4\<close> and
  at most twice the sum of the sides.\<close>

lemma diagonal_bounds:
  assumes w: "0 < w"
  obtains dd where "diagonalLength r w h = Fin dd" and "1 / 4 \<le> dd"
    and "dd \<le> 2 * (real w + real h)"
proof -
  define X where "X = real w * real w"
  define Y where "Y = real h * real h"
  define a where "a = fl r X"
  define b where "b = fl r Y"
  define S where "S = fl r (a + b)"
  define T where "T = sqrt S"
  define dd where "dd = fl r T"
  from w have X1: "1 \<le> X" using nat_square_cases [of w] unfolding X_def by auto
  have Y0: "0 \<le> Y" unfolding Y_def by simp
  have a: "999 / 1000 * X \<le> a" "a \<le> 1001 / 1000 * X"
    unfolding a_def using X1 by (intro fl_pos_bounds; simp)+
  have b: "999 / 1000 * Y \<le> b" "b \<le> 1001 / 1000 * Y"
    unfolding b_def Y_def using nat_square_cases [of h] by (intro fl_pos_bounds; auto)+
  from a b X1 Y0 have ab: "999 / 1000 \<le> a + b" by argo
  have S': "999 / 1000 * (a + b) \<le> S" "S \<le> 1001 / 1000 * (a + b)"
    unfolding S_def using ab by (intro fl_pos_bounds; simp)+
  from S'(1) ab have S1: "1 / 4 \<le> S" by argo
  from S'(2) a(2) b(2) X1 Y0 have S2: "S \<le> 1003 / 1000 * (X + Y)" by argo
  have sq_lo: "1 / 2 \<le> T"
    unfolding T_def by (rule real_le_rsqrt) (use S1 in \<open>simp add: power2_eq_square\<close>)
  define Z where "Z = (real w + real h) * (real w + real h)"
  have "X + Y \<le> Z"
    unfolding X_def Y_def Z_def by (simp add: algebra_simps)
  moreover have "0 \<le> Z" unfolding Z_def by simp
  ultimately have "S \<le> 1004004 / 1000000 * Z"
    using S2 by argo
  also have "\<dots> = (1002 / 1000 * (real w + real h))\<^sup>2"
    unfolding Z_def by (simp add: power2_eq_square algebra_simps)
  finally have sq_hi: "T \<le> 1002 / 1000 * (real w + real h)"
    unfolding T_def by (intro real_le_lsqrt) simp_all
  have d': "999 / 1000 * T \<le> dd" "dd \<le> 1001 / 1000 * T"
    unfolding dd_def using sq_lo by (intro fl_pos_bounds; simp)+
  from d' sq_lo sq_hi have dd: "1 / 4 \<le> dd" "dd \<le> 2 * (real w + real h)" by argo+
  have "\<not> a + b < 0" using ab by simp
  moreover have "\<not> S < 0" using S1 by simp
  ultimately have "diagonalLength r w h = Fin dd"
    unfolding diagonalLength_def dd_def T_def S_def a_def b_def X_def Y_def by simp
  with dd that show ?thesis by blast
qed


lemma step_value:
  assumes p: "0 < fl r (tw * fl r 0.7)"
  shows "step r (Fin dd) (repetitions r (Fin dd) (Fin tw)) =
         Fin (fl r (dd / real_of_int (max 5 \<lceil>fl r (dd / fl r (tw * fl r 0.7))\<rceil>)))"
proof -
  define k where "k = \<lceil>fl r (dd / fl r (tw * fl r 0.7))\<rceil>"
  from p have reps: "repetitions r (Fin dd) (Fin tw) = Fin (real_of_int k)"
    unfolding repetitions_def k_def by simp
  have mx: "Math_max (Fin 5) (Fin (real_of_int k)) = Fin (real_of_int (max 5 k))"
    by (simp add: max_def)
  have nz: "real_of_int (max 5 k) \<noteq> 0"
    by (simp add: max_def)
  have "step r (Fin dd) (Fin (real_of_int k)) = Fin (fl r (dd / real_of_int (max 5 k)))"
    unfolding step_def mx using nz by simp
  then show ?thesis unfolding reps k_def .
qed

text \<open>A measured width of zero over a positive diagonal: \<open>repetitions\<close> is infinite and
  the step is zero. So it is when the product of a tiny width and \<open>0.7\<close> rounds to zero.\<close>

lemma step_zero_divisor:
  assumes "0 < dd" and "fl r (tw * fl r 0.7) = 0"
  shows "repetitions r (Fin dd) (Fin tw) = PInf"
    and "step r (Fin dd) (repetitions r (Fin dd) (Fin tw)) = Fin 0"
proof -
  from assms show "repetitions r (Fin dd) (Fin tw) = PInf"
    by (simp add: repetitions_def)
  then show "step r (Fin dd) (repetitions r (Fin dd) (Fin tw)) = Fin 0"
    by (simp add: step_def)
qed


text \<open>In exact arithmetic, with a positive width.\<close>

lemma step_pos_width:
  assumes "0 < tw"
  shows "step exact (Fin d) (repetitions exact (Fin d) (Fin tw)) =
         Fin (d / real_of_int (max 5 \<lceil>d / (tw * 0.7)\<rceil>))"
  using step_value [of exact tw d] assms by simp

lemma diagonalLength_exact:
  "diagonalLength exact w h = Fin (sqrt (real w * real w + real h * real h))"
  by (simp add: diagonalLength_def not_less)

section \<open>The compositor, unfolded\<close>

lemma composite_no_context:
  assumes "\<not> getContext e (bm_width img) (bm_height img)"
  shows "composite e img t = Some (Inl (Error ''Could not get canvas context.''))"
  using assms by (simp add: composite_def createElement_canvas_def)

text \<open>With a context, the block is the tiling of the canvas prepared by the lines before
  the loops, and then \<open>toDataURL\<close>.\<close>

lemma composite_context:
  fixes e img t
  defines "w \<equiv> bm_width img" and "h \<equiv> bm_height img" and "r \<equiv> fp e"
  defines "text \<equiv> or_else t ''CONFIDENTIAL''"
  defines "d \<equiv> diagonalLength r w h"
  defines "c3 \<equiv>
    \<lparr>width = w, height = h,
     ctx = \<lparr>font = bold_sans_serif (fontSize r w h), fillStyle = ''rgba(128, 128, 128, 0.35)'',
            textAlign = ''center'', textBaseline = ''middle'',
            transform = [Translate (js_div r (Fin (real w)) (Fin 2)) (js_div r (Fin (real h)) (Fin 2)),
                         Rotate (js_div r (js_neg (Fin (fl r pi))) (Fin 4))]\<rparr>,
     painted = [DrawImage img (Fin 0) (Fin 0) (Fin (real w)) (Fin (real h))]\<rparr>"
  assumes ctx: "getContext e w h"
  shows "composite e img t =
    Option.bind
      (tile r text d
         (step r d (repetitions r d (Fin (measureText e (bold_sans_serif (fontSize r w h)) text)))) c3)
      (\<lambda>c4. Some (Inr (Bitmap (width c4) (height c4) (painted c4))))"
  using ctx
  unfolding w_def h_def text_def d_def c3_def r_def
  by (simp add: composite_def createElement_canvas_def drawImage_def translate_def rotate_def
      toDataURL_def Let_def)

text \<open>Every image the block returns: the size of the source, the source drawn whole at
  the origin, then texts only, all of them the effective text.\<close>

lemma composite_Inr:
  assumes run: "composite e img t = Some (Inr out)"
  shows "getContext e (bm_width img) (bm_height img) \<and>
    (\<exists>ts. out = Bitmap (bm_width img) (bm_height img)
             (DrawImage img (Fin 0) (Fin 0) (Fin (real (bm_width img))) (Fin (real (bm_height img)))
              # ts) \<and>
          (\<forall>p \<in> set ts. \<exists>x y s. p = FillText (or_else t ''CONFIDENTIAL'') x y s))"
proof -
  have ctx: "getContext e (bm_width img) (bm_height img)"
  proof (rule ccontr)
    assume "\<not> ?thesis"
    from composite_no_context [OF this] run show False by simp
  qed
  from run [unfolded composite_context [OF ctx]] obtain c c4 d st where
    tiled: "tile (fp e) (or_else t ''CONFIDENTIAL'') d st c = Some c4"
    and c: "width c = bm_width img" "height c = bm_height img"
      "painted c = [DrawImage img (Fin 0) (Fin 0) (Fin (real (bm_width img)))
                    (Fin (real (bm_height img)))]"
    and out: "out = Bitmap (width c4) (height c4) (painted c4)"
    by (auto simp: bind_eq_Some_conv)
  from tile_inv [OF tiled] c obtain ts where
    "width c4 = bm_width img" "height c4 = bm_height img"
    "painted c4 = DrawImage img (Fin 0) (Fin 0) (Fin (real (bm_width img)))
                    (Fin (real (bm_height img))) # ts"
    "\<forall>p \<in> set ts. \<exists>x y s. p = FillText (or_else t ''CONFIDENTIAL'') x y s"
    by force
  with out ctx show ?thesis by blast
qed


text \<open>The bounds of both loops: \<open>-d / 2\<close> and \<open>d / 2\<close>.\<close>

lemma half_bounds:
  assumes "1 / 4 \<le> dd"
  shows "js_div r (js_neg (Fin dd)) (Fin 2) = Fin (- fl r (dd / 2))"
    and "js_div r (Fin dd) (Fin 2) = Fin (fl r (dd / 2))"
    and "999 / 1000 * (dd / 2) \<le> fl r (dd / 2)"
    and "fl r (dd / 2) \<le> 1001 / 1000 * (dd / 2)"
    and "js_lt (js_div r (js_neg (Fin dd)) (Fin 2)) (js_div r (Fin dd) (Fin 2))"
proof -
  have neg: "- dd / 2 = - (dd / 2)" by simp
  show lo: "js_div r (js_neg (Fin dd)) (Fin 2) = Fin (- fl r (dd / 2))"
    by (simp add: neg fl_minus del: minus_divide_left [symmetric] divide_minus_left)
  show hi: "js_div r (Fin dd) (Fin 2) = Fin (fl r (dd / 2))" by simp
  from assms have "dd / 2 = 0 \<or> 1 / 2 ^ 100 \<le> dd / 2" by simp
  from fl_pos_bounds [OF this, of r]
  show b: "999 / 1000 * (dd / 2) \<le> fl r (dd / 2)" "fl r (dd / 2) \<le> 1001 / 1000 * (dd / 2)" .
  from b(1) assms have "0 < fl r (dd / 2)" by argo
  then show "js_lt (js_div r (js_neg (Fin dd)) (Fin 2)) (js_div r (Fin dd) (Fin 2))"
    unfolding lo hi by simp
qed

text \<open>A zero step over a positive diagonal: \<open>y += 0\<close> leaves \<open>y\<close> below \<open>d / 2\<close>.\<close>

lemma tile_zero_step:
  assumes "1 / 4 \<le> dd"
  shows "tile r t (Fin dd) (Fin 0) c = None"
  unfolding tile_def
proof (rule for_loop_stall)
  from assms show "js_lt (js_div r (js_neg (Fin dd)) (Fin 2)) (js_div r (Fin dd) (Fin 2))"
    by (rule half_bounds(5))
  show "js_add r (js_div r (js_neg (Fin dd)) (Fin 2)) (Fin 0) = js_div r (js_neg (Fin dd)) (Fin 2)"
    unfolding half_bounds(1) [OF assms] by (simp add: fl_minus)
qed

lemma composite_zero_width:
  assumes w: "0 < bm_width img" and ctx: "getContext e (bm_width img) (bm_height img)"
    and tw: "measureText e (bold_sans_serif (fontSize (fp e) (bm_width img) (bm_height img)))
               (or_else t ''CONFIDENTIAL'') = 0"
  shows "composite e img t = None"
proof -
  from w obtain dd where d: "diagonalLength (fp e) (bm_width img) (bm_height img) = Fin dd"
    and dd: "1 / 4 \<le> dd"
    by (rule diagonal_bounds)
  from dd have pos: "0 < dd" by simp
  have "fl (fp e) (0 * fl (fp e) 0.7) = 0" by simp
  from step_zero_divisor(2) [OF pos this]
  have "step (fp e) (Fin dd) (repetitions (fp e) (Fin dd) (Fin 0)) = Fin 0" .
  then show ?thesis
    unfolding composite_context [OF ctx] tw d by (simp add: tile_zero_step [OF dd])
qed

text \<open>A run over a positive width paints at least one text after the source.\<close>

lemma composite_paints:
  assumes run: "composite e img t = Some (Inr out)" and w: "0 < bm_width img"
  shows "tl (bm_paint out) \<noteq> []"
proof -
  from composite_Inr [OF run] have ctx: "getContext e (bm_width img) (bm_height img)"
    by blast
  from w obtain dd where d: "diagonalLength (fp e) (bm_width img) (bm_height img) = Fin dd"
    and dd: "1 / 4 \<le> dd"
    by (rule diagonal_bounds)
  from run [unfolded composite_context [OF ctx] d] obtain c c4 st where
    tiled: "tile (fp e) (or_else t ''CONFIDENTIAL'') (Fin dd) st c = Some c4"
    and c: "length (painted c) = 1"
    and out: "out = Bitmap (width c4) (height c4) (painted c4)"
    by (auto simp: bind_eq_Some_conv)
  from tile_grows [OF tiled half_bounds(5) [OF dd]] c
  have "1 < length (painted c4)" by simp
  then show ?thesis unfolding out by (cases "painted c4") auto
qed

text \<open>In exact arithmetic, a positive measured width over a positive diagonal: the block
  returns the source under the grid of texts.\<close>

lemma composite_pos_width:
  fixes e img t
  defines "w \<equiv> bm_width img" and "h \<equiv> bm_height img"
  defines "tx \<equiv> or_else t ''CONFIDENTIAL''"
  defines "d \<equiv> sqrt (real w * real w + real h * real h)"
  defines "tw \<equiv> measureText e (bold_sans_serif (fontSize exact w h)) tx"
  defines "n \<equiv> max 5 \<lceil>d / (tw * 0.7)\<rceil>"
  assumes ex: "fp e = exact" and ctx: "getContext e w h" and tw: "0 < tw"
  shows "composite e img t =
    Some (Inr (Bitmap w h
      (DrawImage img (Fin 0) (Fin 0) (Fin (real w)) (Fin (real h)) #
       map (\<lambda>(x, y). FillText tx x y
              \<lparr>font = bold_sans_serif (fontSize exact w h), fillStyle = ''rgba(128, 128, 128, 0.35)'',
               textAlign = ''center'', textBaseline = ''middle'',
               transform = [Translate (Fin (real w / 2)) (Fin (real h / 2)),
                            Rotate (Fin (- pi / 4))]\<rparr>)
           (concat (grid d (d / real_of_int n))))))"
proof (cases "d = 0")
  case False
  have "0 \<le> d" unfolding d_def by simp
  with False have d: "0 < d" by simp
  have "0 < real_of_int n" unfolding n_def by simp
  with d have st: "0 < d / real_of_int n" by simp
  show ?thesis
    using ctx tw
    unfolding w_def h_def tx_def d_def tw_def n_def
    apply (simp only: composite_context ex diagonalLength_exact step_pos_width)
    apply (subst tile_fin)
    using st [unfolded n_def d_def tw_def tx_def w_def h_def] apply assumption
    apply simp
    done
next
  case True
  have exit: "tile exact s (Fin 0) (Fin 0) c = Some c" for s c
    unfolding tile_def by (rule for_loop_exit) simp
  have "grid 0 0 = []" by (simp add: grid_def)
  then show ?thesis
    using ctx tw True
    unfolding w_def h_def tx_def tw_def n_def
    apply (simp only: composite_context ex diagonalLength_exact step_pos_width)
    apply (simp add: d_def w_def h_def exit)
    done
qed

text \<open>Texts are their own layers.\<close>

lemma layers_texts:
  assumes "\<forall>p \<in> set ts. \<exists>s x y g. p = FillText s x y g"
  shows "concat (map paint_layers ts) = ts"
  using assms by (induction ts) auto

text \<open>A toast changes no state variable.\<close>

lemma toast_fields [simp]:
  "originalFile (toast a b v st) = originalFile st"
  "originalImagePreviewSrc (toast a b v st) = originalImagePreviewSrc st"
  "watermarkText (toast a b v st) = watermarkText st"
  "watermarkedImageSrc (toast a b v st) = watermarkedImageSrc st"
  "isLoading (toast a b v st) = isLoading st"
  "progress (toast a b v st) = progress st"
  "error (toast a b v st) = error st"
  "fileInputValue (toast a b v st) = fileInputValue st"
  "originalImageRefSrc (toast a b v st) = originalImageRefSrc st"
  by (simp_all add: toast_def)

text \<open>\<open>applyWatermark\<close> writes the watermarked image, the error, the progress, the
  loading flag and toasts, and nothing else.\<close>

lemma applyWatermark_keeps_source:
  assumes "applyWatermark e st = Some st'"
  shows "originalImagePreviewSrc st' = originalImagePreviewSrc st \<and> originalFile st' = originalFile st
    \<and> watermarkText st' = watermarkText st"
  using assms
  by (auto simp: applyWatermark_def img_onerror_def img_onload_def Let_def
      split: option.splits if_splits sum.splits js_error.splits)

section \<open>When the loops return\<close>

text \<open>A loop whose variable grows by at least \<open>\<delta> > 0\<close> at each turn, and whose body
  returns, returns.\<close>

lemma for_loop_returns:
  assumes delta: "0 < \<delta>"
    and progress: "\<And>v. lo \<le> v \<Longrightarrow> v < hi \<Longrightarrow> v + \<delta> \<le> fl r (v + inc)"
    and body: "\<And>v s. \<exists>s'. body (Fin v) s = Some s'"
    and v: "lo \<le> v"
  shows "\<exists>res. for_loop r (Fin v) (Fin hi) (Fin inc) body s = Some res"
  using v
proof (induction "nat \<lceil>(hi - v) / \<delta>\<rceil>" arbitrary: v s rule: less_induct)
  case less
  show ?case
  proof (cases "v < hi")
    case False
    then have "for_loop r (Fin v) (Fin hi) (Fin inc) body s = Some s"
      by (intro for_loop_exit) simp
    then show ?thesis by blast
  next
    case True
    from body obtain s' where s': "body (Fin v) s = Some s'" by blast
    define v' where "v' = fl r (v + inc)"
    from progress [OF less.prems True] have v': "v + \<delta> \<le> v'" unfolding v'_def .
    with delta less.prems have lo: "lo \<le> v'" by linarith
    from v' have "hi - v' \<le> hi - v - \<delta>" by linarith
    then have "(hi - v') / \<delta> \<le> (hi - v - \<delta>) / \<delta>"
      using delta by (intro divide_right_mono) simp_all
    also have "\<dots> = (hi - v) / \<delta> - 1"
      using delta by (simp add: field_simps)
    finally have le: "(hi - v') / \<delta> \<le> (hi - v) / \<delta> - 1" .
    from True delta have "0 < (hi - v) / \<delta>" by simp
    with le have "nat \<lceil>(hi - v') / \<delta>\<rceil> < nat \<lceil>(hi - v) / \<delta>\<rceil>" by linarith
    from less.hyps [OF this lo, of s'] obtain res where
      "for_loop r (Fin v') (Fin hi) (Fin inc) body s' = Some res" by blast
    with True s' have "for_loop r (Fin v) (Fin hi) (Fin inc) body s = Some res"
      by (subst for_loop.simps) (simp add: v'_def)
    then show ?thesis by blast
  qed
qed

text \<open>The progress of a loop variable between \<open>-d\<close> and \<open>d\<close> under an increment between
  \<open>d / 2^33\<close> and \<open>d\<close>: rounding takes less than half of the increment away.\<close>

lemma progress_bound:
  assumes dd: "1 / 4 \<le> dd" and v: "\<bar>v\<bar> \<le> dd" and lo: "dd / 2 ^ 33 \<le> inc" and hi: "inc \<le> dd"
  shows "v + dd / 2 ^ 34 \<le> fl r (v + inc)"
proof -
  from dd have "0 \<le> dd / 2 ^ 33" by simp
  with lo have "0 \<le> inc" by linarith
  with v hi have "\<bar>v + inc\<bar> \<le> 2 * dd" by linarith
  then have "\<bar>v + inc\<bar> / 2 ^ 53 \<le> 2 * dd / 2 ^ 53"
    by (intro divide_right_mono) simp_all
  with fl_error_any [of r "v + inc"]
  have "\<bar>fl r (v + inc) - (v + inc)\<bar> \<le> 2 * dd / 2 ^ 53 + 3 / 2 ^ 100" by linarith
  moreover from dd have "3 / 2 ^ 100 \<le> dd / 2 ^ 53" by simp
  ultimately have "v + inc - 3 * dd / 2 ^ 53 \<le> fl r (v + inc)" by linarith
  moreover have "3 * dd / 2 ^ 53 \<le> dd / 2 ^ 34" using dd by simp
  moreover have "dd / 2 ^ 33 = 2 * (dd / 2 ^ 34)" by simp
  ultimately show ?thesis using lo by linarith
qed

text \<open>The step when the measured width is not tiny against the sides: between
  \<open>d / 2^33\<close> and a little over \<open>d / 5\<close>.\<close>

lemma step_lower:
  assumes dd: "1 / 4 \<le> dd" and up: "dd \<le> 2 * S" and tw: "S \<le> 2 ^ 30 * tw"
  obtains s where "step r (Fin dd) (repetitions r (Fin dd) (Fin tw)) = Fin s"
    and "dd / 2 ^ 33 \<le> s" and "s \<le> 1001 / 1000 * (dd / 5)"
proof -
  define c7 where "c7 = fl r 0.7"
  define p where "p = fl r (tw * c7)"
  define m where "m = real_of_int (max 5 \<lceil>fl r (dd / p)\<rceil>)"
  from dd up tw have twl: "1 / 2 ^ 33 \<le> tw" and ddtw: "dd \<le> 2147483648 * tw" by simp_all
  have "(0::real) < 1 / 2 ^ 33" by simp
  with twl have twpos: "0 < tw" by linarith
  have "(0.7::real) = 0 \<or> 1 / 2 ^ 100 \<le> (0.7::real)" by simp
  from fl_pos_bounds(1) [OF this, of r] have c7: "6993 / 10000 \<le> c7" unfolding c7_def by simp
  from twpos have "tw * (6993 / 10000) \<le> tw * c7"
    by (intro mult_left_mono c7) simp
  then have x: "6993 / 10000 * tw \<le> tw * c7" by (simp add: mult.commute)
  have "1 / 2 ^ 100 \<le> 6993 / 10000 * (1 / 2 ^ 33 :: real)" by simp
  also from twl have "\<dots> \<le> 6993 / 10000 * tw" by (intro mult_left_mono) simp_all
  also note x
  finally have "1 / 2 ^ 100 \<le> tw * c7" .
  then have "tw * c7 = 0 \<or> 1 / 2 ^ 100 \<le> tw * c7" by simp
  from fl_pos_bounds(1) [OF this, of r] have "999 / 1000 * (tw * c7) \<le> p" unfolding p_def .
  with x twpos have p: "69 / 100 * tw \<le> p" by argo
  with twpos have ppos: "0 < p" by argo
  from step_value [of r tw dd] ppos
  have st: "step r (Fin dd) (repetitions r (Fin dd) (Fin tw)) = Fin (fl r (dd / m))"
    unfolding p_def c7_def m_def by simp
  from ddtw p twpos have "dd \<le> 3200000000 * p" by argo
  with ppos have "dd / p \<le> 3200000000" by (simp add: pos_divide_le_eq)
  from fl_upper [OF this, of r] have "fl r (dd / p) \<le> 2 ^ 32" by simp
  then have "\<lceil>fl r (dd / p)\<rceil> \<le> 2 ^ 32" by (simp add: ceiling_le_iff)
  then have "max 5 \<lceil>fl r (dd / p)\<rceil> \<le> 2 ^ 32" by simp
  then have "real_of_int (max 5 \<lceil>fl r (dd / p)\<rceil>) \<le> real_of_int (2 ^ 32)"
    by (rule of_int_le_iff [THEN iffD2])
  then have mu: "m \<le> 2 ^ 32" unfolding m_def by simp
  have ml: "5 \<le> m" unfolding m_def by simp
  from dd ml mu have lo: "dd / 2 ^ 32 \<le> dd / m"
    by (intro divide_left_mono) simp_all
  from dd have "1 / 2 ^ 100 \<le> \<bar>dd / 2 ^ 32\<bar>" by simp
  from fl_lower [OF lo this, of r] dd have "dd / 2 ^ 33 \<le> fl r (dd / m)" by simp
  moreover from dd ml have hi: "dd / m \<le> dd / 5"
    by (intro divide_left_mono) simp_all
  from dd have "1 / 2 ^ 100 \<le> \<bar>dd / 5\<bar>" by simp
  from fl_upper [OF hi this, of r] dd have "fl r (dd / m) \<le> 1001 / 1000 * (dd / 5)" by simp
  ultimately show ?thesis using st that by blast
qed

text \<open>With such a step both loops return.\<close>

lemma tile_returns:
  assumes dd: "1 / 4 \<le> dd" and lo: "dd / 2 ^ 33 \<le> s" and hi: "s \<le> 1001 / 1000 * (dd / 5)"
  shows "\<exists>c'. tile r t (Fin dd) (Fin s) c = Some c'"
proof -
  define hh where "hh = fl r (dd / 2)"
  define inc where "inc = fl r (s * 2.5)"
  from half_bounds(3,4) [OF dd, of r] dd have hh: "0 < hh" "hh \<le> dd"
    unfolding hh_def by argo+
  have delta: "0 < dd / 2 ^ 34" using dd by simp
  have between: "\<bar>v\<bar> \<le> dd" if "- hh \<le> v" "v < hh" for v
    using that hh by linarith
  from hi dd have s_hi: "s \<le> dd" by argo
  from dd have "0 \<le> dd / 2 ^ 33" by simp
  with lo have "2 * (dd / 2 ^ 33) \<le> s * 2.5" by argo
  moreover from dd have "1 / 2 ^ 100 \<le> \<bar>2 * (dd / 2 ^ 33)\<bar>" by simp
  ultimately have "2 * (dd / 2 ^ 33) - \<bar>2 * (dd / 2 ^ 33)\<bar> / 1000 \<le> inc"
    unfolding inc_def by (rule fl_lower)
  with dd have inc_lo: "dd / 2 ^ 33 \<le> inc" by simp
  from hi have "s * 2.5 \<le> 5005 / 10000 * dd" by argo
  moreover from dd have "1 / 2 ^ 100 \<le> \<bar>5005 / 10000 * dd\<bar>" by simp
  ultimately have "inc \<le> 5005 / 10000 * dd + \<bar>5005 / 10000 * dd\<bar> / 1000"
    unfolding inc_def by (rule fl_upper)
  with dd have inc_hi: "inc \<le> dd" by simp
  have inner: "\<exists>c'. for_loop r (Fin (- hh)) (Fin hh) (Fin inc)
                  (\<lambda>x c'. Some (fillText t x y c')) c = Some c'" for y c
  proof (rule for_loop_returns [OF delta])
    fix v assume "- hh \<le> v" "v < hh"
    then have "\<bar>v\<bar> \<le> dd" by (rule between)
    with dd show "v + dd / 2 ^ 34 \<le> fl r (v + inc)"
      using inc_lo inc_hi by (rule progress_bound)
  qed simp_all
  have "\<exists>c'. for_loop r (Fin (- hh)) (Fin hh) (Fin s)
          (\<lambda>y. for_loop r (Fin (- hh)) (Fin hh) (Fin inc) (\<lambda>x c'. Some (fillText t x y c'))) c
        = Some c'"
  proof (rule for_loop_returns [OF delta])
    fix v assume "- hh \<le> v" "v < hh"
    then have "\<bar>v\<bar> \<le> dd" by (rule between)
    with dd show "v + dd / 2 ^ 34 \<le> fl r (v + s)"
      using lo s_hi by (rule progress_bound)
  next
    fix v c
    from inner [of "Fin v" c]
    show "\<exists>s'. for_loop r (Fin (- hh)) (Fin hh) (Fin inc)
                 (\<lambda>x c'. Some (fillText t x (Fin v) c')) c = Some s'" .
  qed simp
  then show ?thesis
    unfolding tile_def half_bounds(1,2) [OF dd] hh_def inc_def by simp
qed

text \<open>So the block returns an image when there is a context and the measured width is at
  least the sum of the sides over \<open>2^30\<close>.\<close>

lemma composite_returns:
  assumes w: "0 < bm_width img" and ctx: "getContext e (bm_width img) (bm_height img)"
    and tw: "real (bm_width img) + real (bm_height img) \<le>
             2 ^ 30 * measureText e (bold_sans_serif (fontSize (fp e) (bm_width img) (bm_height img)))
                        (or_else t ''CONFIDENTIAL'')"
  shows "\<exists>out. composite e img t = Some (Inr out)"
proof -
  from w obtain dd where d: "diagonalLength (fp e) (bm_width img) (bm_height img) = Fin dd"
    and dd: "1 / 4 \<le> dd" and up: "dd \<le> 2 * (real (bm_width img) + real (bm_height img))"
    by (rule diagonal_bounds)
  from dd up tw obtain s where
    st: "step (fp e) (Fin dd) (repetitions (fp e) (Fin dd)
           (Fin (measureText e (bold_sans_serif (fontSize (fp e) (bm_width img) (bm_height img)))
                        (or_else t ''CONFIDENTIAL'')))) = Fin s"
    and s: "dd / 2 ^ 33 \<le> s" "s \<le> 1001 / 1000 * (dd / 5)"
    by (rule step_lower)
  from tile_returns [OF dd s] show ?thesis
    unfolding composite_context [OF ctx] d st by (auto simp: bind_eq_Some_conv)
qed

section \<open>The first five rows\<close>









section \<open>Two canvases under the same loops\<close>

text \<open>Two runs of a loop from states in a relation that the bodies keep: if the first
  returns, so does the second, and the results are in the relation.\<close>

lemma for_loop_rel:
  assumes run: "for_loop r v hi inc body1 s1 = Some res1"
    and rel: "R s1 s2"
    and body: "\<And>v a1 a2 a1'. R a1 a2 \<Longrightarrow> body1 v a1 = Some a1' \<Longrightarrow>
                 \<exists>a2'. body2 v a2 = Some a2' \<and> R a1' a2'"
  shows "\<exists>res2. for_loop r v hi inc body2 s2 = Some res2 \<and> R res1 res2"
proof -
  have "b = body1 \<longrightarrow> (\<forall>s2. R s1 s2 \<longrightarrow>
          (\<exists>res2. for_loop r v hi inc body2 s2 = Some res2 \<and> R res1 res2))"
    if "for_loop r v hi inc b s1 = Some res1" for b
    using that
  proof (rule for_loop.raw_induct
      [where P = "\<lambda>r v hi inc b s1 res1. b = body1 \<longrightarrow> (\<forall>s2. R s1 s2 \<longrightarrow>
          (\<exists>res2. for_loop r v hi inc body2 s2 = Some res2 \<and> R res1 res2))", rotated])
    fix f r v hi inc b s1 res1
    assume IH: "\<And>r v hi inc b s1 res1. f r v hi inc b s1 = Some res1 \<Longrightarrow>
        b = body1 \<longrightarrow> (\<forall>s2. R s1 s2 \<longrightarrow>
          (\<exists>res2. for_loop r v hi inc body2 s2 = Some res2 \<and> R res1 res2))"
      and unfolded: "(if js_lt v hi
          then Option.bind (b v s1) (f r (js_add r v inc) hi inc b) else Some s1) = Some res1"
    show "b = body1 \<longrightarrow> (\<forall>s2. R s1 s2 \<longrightarrow>
          (\<exists>res2. for_loop r v hi inc body2 s2 = Some res2 \<and> R res1 res2))"
    proof (intro impI allI)
      fix s2
      assume eq: "b = body1" and rel: "R s1 s2"
      show "\<exists>res2. for_loop r v hi inc body2 s2 = Some res2 \<and> R res1 res2"
      proof (cases "js_lt v hi")
        case True
        with unfolded obtain a1' where b: "b v s1 = Some a1'"
          and f: "f r (js_add r v inc) hi inc b a1' = Some res1"
          by (auto simp: bind_eq_Some_conv)
        from body [OF rel b [unfolded eq]] obtain a2' where
          b2: "body2 v s2 = Some a2'" and rel': "R a1' a2'" by blast
        from IH [OF f] eq rel' obtain res2 where
          "for_loop r (js_add r v inc) hi inc body2 a2' = Some res2" and "R res1 res2"
          by blast
        with True b2 have "for_loop r v hi inc body2 s2 = Some res2 \<and> R res1 res2"
          by (subst for_loop.simps) simp
        then show ?thesis by blast
      next
        case False
        with unfolded have "res1 = s1" by simp
        moreover from False have "for_loop r v hi inc body2 s2 = Some s2"
          by (rule for_loop_exit)
        ultimately show ?thesis using rel by blast
      qed
    qed
  qed
  from this [OF run] rel show ?thesis by blast
qed

text \<open>The texts that the two loops paint do not depend on what the canvas holds: on a
  canvas of the same drawing state, the same run paints the same texts.\<close>

lemma tile_rel:
  assumes run: "tile r t d st c1 = Some c1'"
    and ctx: "ctx c2 = ctx c1"
  shows "\<exists>c2' ts. tile r t d st c2 = Some c2' \<and>
           painted c1' = painted c1 @ ts \<and> painted c2' = painted c2 @ ts"
proof -
  define R where "R = (\<lambda>(a1 :: canvas) (a2 :: canvas). ctx a2 = ctx a1 \<and>
      (\<exists>ts. painted a1 = painted c1 @ ts \<and> painted a2 = painted c2 @ ts))"
  have paint: "R (fillText t x y a1) (fillText t x y a2)" if "R a1 a2" for x y a1 a2
  proof -
    from that obtain ts where "ctx a2 = ctx a1" "painted a1 = painted c1 @ ts"
      "painted a2 = painted c2 @ ts"
      unfolding R_def by blast
    then have "ctx (fillText t x y a2) = ctx (fillText t x y a1)"
      "painted (fillText t x y a1) = painted c1 @ (ts @ [FillText t x y (ctx a1)])"
      "painted (fillText t x y a2) = painted c2 @ (ts @ [FillText t x y (ctx a1)])"
      by simp_all
    then show ?thesis unfolding R_def by blast
  qed
  have row: "\<exists>a2'. for_loop r lo hi inc (\<lambda>x c'. Some (fillText t x y c')) a2 = Some a2' \<and> R a1' a2'"
    if "R a1 a2" "for_loop r lo hi inc (\<lambda>x c'. Some (fillText t x y c')) a1 = Some a1'"
    for lo hi inc y a1 a2 a1'
    using that(2,1)
  proof (rule for_loop_rel)
    fix v b1 b2 b1'
    assume "R b1 b2" and "Some (fillText t v y b1) = Some b1'"
    with paint [of b1 b2 v y]
    show "\<exists>b2'. Some (fillText t v y b2) = Some b2' \<and> R b1' b2'" by auto
  qed
  have "R c1 c2" unfolding R_def using ctx by simp
  with run [unfolded tile_def]
  have "\<exists>c2'. for_loop r (js_div r (js_neg d) (Fin 2)) (js_div r d (Fin 2)) st
          (\<lambda>y. for_loop r (js_div r (js_neg d) (Fin 2)) (js_div r d (Fin 2)) (js_mul r st (Fin 2.5))
                  (\<lambda>x c'. Some (fillText t x y c'))) c2 = Some c2' \<and> R c1' c2'"
  proof (rule for_loop_rel)
    fix v a1 a2 a1'
    assume "R a1 a2" and "for_loop r (js_div r (js_neg d) (Fin 2)) (js_div r d (Fin 2))
        (js_mul r st (Fin 2.5)) (\<lambda>x c'. Some (fillText t x v c')) a1 = Some a1'"
    then show "\<exists>a2'. for_loop r (js_div r (js_neg d) (Fin 2)) (js_div r d (Fin 2))
        (js_mul r st (Fin 2.5)) (\<lambda>x c'. Some (fillText t x v c')) a2 = Some a2' \<and> R a1' a2'"
      by (rule row)
  qed
  then show ?thesis unfolding tile_def R_def by blast
qed

text \<open>Watermarking two sources of the same size: if the block returns an image for one,
  it returns one for the other, with the same texts over it.\<close>

lemma composite_same_texts:
  assumes run: "composite e img1 t = Some (Inr out1)"
    and size: "bm_width img2 = bm_width img1" "bm_height img2 = bm_height img1"
  shows "composite e img2 t =
    Some (Inr (Bitmap (bm_width img1) (bm_height img1)
      (DrawImage img2 (Fin 0) (Fin 0) (Fin (real (bm_width img1))) (Fin (real (bm_height img1)))
       # tl (bm_paint out1))))"
proof -
  from composite_Inr [OF run] have ctx: "getContext e (bm_width img1) (bm_height img1)"
    by blast
  then have ctx2: "getContext e (bm_width img2) (bm_height img2)" unfolding size .
  let ?w = "bm_width img1" and ?h = "bm_height img1"
  let ?c = "\<lambda>img. \<lparr>width = ?w, height = ?h,
     ctx = \<lparr>font = bold_sans_serif (fontSize (fp e) ?w ?h), fillStyle = ''rgba(128, 128, 128, 0.35)'',
            textAlign = ''center'', textBaseline = ''middle'',
            transform = [Translate (js_div (fp e) (Fin (real ?w)) (Fin 2))
                                   (js_div (fp e) (Fin (real ?h)) (Fin 2)),
                         Rotate (js_div (fp e) (js_neg (Fin (fl (fp e) pi))) (Fin 4))]\<rparr>,
     painted = [DrawImage img (Fin 0) (Fin 0) (Fin (real ?w)) (Fin (real ?h))]\<rparr>"
  define d where "d = diagonalLength (fp e) ?w ?h"
  define st where "st = step (fp e) d (repetitions (fp e) d
      (Fin (measureText e (bold_sans_serif (fontSize (fp e) ?w ?h)) (or_else t ''CONFIDENTIAL''))))"
  from run [unfolded composite_context [OF ctx], folded d_def, folded st_def]
  obtain c4 where tiled: "tile (fp e) (or_else t ''CONFIDENTIAL'') d st (?c img1) = Some c4"
    and out1: "out1 = Bitmap (width c4) (height c4) (painted c4)"
    by (auto simp: bind_eq_Some_conv)
  have "ctx (?c img2) = ctx (?c img1)" by simp
  from tile_rel [OF tiled this] obtain c4' ts where
    tiled2: "tile (fp e) (or_else t ''CONFIDENTIAL'') d st (?c img2) = Some c4'"
    and p1: "painted c4 = painted (?c img1) @ ts" and p2: "painted c4' = painted (?c img2) @ ts"
    by blast
  from tile_inv [OF tiled2] have "width c4' = ?w" "height c4' = ?h" by simp_all
  moreover have "tl (bm_paint out1) = ts" unfolding out1 using p1 by simp
  ultimately show ?thesis
    unfolding composite_context [OF ctx2] size d_def [symmetric] st_def [symmetric]
    using tiled2 p2 by simp
qed

text \<open>Blank texts add nothing to a picture.\<close>

lemma picture_blank_texts:
  assumes "\<forall>p \<in> set ts. \<exists>x y g. p = FillText t x y g" and "blank t"
  shows "concat (map paint_picture ts) = []"
  using assms by (induction ts) auto


text \<open>The image shown after \<open>applyWatermark\<close>, from the preview and the text it read.\<close>

lemma applyWatermark_output:
  assumes "applyWatermark e st = Some st'"
  shows "watermarkedImageSrc st' =
    (case originalImagePreviewSrc st of
       None \<Rightarrow> watermarkedImageSrc st
     | Some src \<Rightarrow>
         if src = [] then watermarkedImageSrc st
         else (case loadImage e src of
                 None \<Rightarrow> None
               | Some img \<Rightarrow> (case composite e img (watermarkText st) of
                                Some (Inr out) \<Rightarrow> Some out
                              | _ \<Rightarrow> None)))"
  using assms
  by (auto simp: applyWatermark_def img_onerror_def img_onload_def Let_def
      split: option.splits if_splits sum.splits js_error.splits)

text \<open>Under a blank first text, the second watermark over the first result shows what the
  second watermark over the source shows.\<close>

lemma composite_blank_under:
  assumes o1: "composite e src a = Some (Inr o1)" and o2: "composite e o1 b = Some (Inr o2)"
    and o3: "composite e src b = Some (Inr o3)" and a: "blank (or_else a ''CONFIDENTIAL'')"
  shows "picture o2 = picture o3"
proof -
  let ?w = "bm_width src" and ?h = "bm_height src"
  from composite_Inr [OF o1] obtain ta where
    o1_eq: "o1 = Bitmap ?w ?h (DrawImage src (Fin 0) (Fin 0) (Fin (real ?w)) (Fin (real ?h)) # ta)"
    and ta: "\<forall>p \<in> set ta. \<exists>x y g. p = FillText (or_else a ''CONFIDENTIAL'') x y g"
    by blast
  have size: "bm_width o1 = ?w" "bm_height o1 = ?h" unfolding o1_eq by simp_all
  from composite_same_texts [OF o3 size] o2
  have o2_eq: "o2 = Bitmap ?w ?h
      (DrawImage o1 (Fin 0) (Fin 0) (Fin (real ?w)) (Fin (real ?h)) # tl (bm_paint o3))"
    by simp
  from composite_Inr [OF o3] obtain tb where
    o3_eq: "o3 = Bitmap ?w ?h (DrawImage src (Fin 0) (Fin 0) (Fin (real ?w)) (Fin (real ?h)) # tb)"
    by blast
  have p1: "picture o1 = (if ?w = 0 \<or> ?h = 0 then [] else picture src)"
    unfolding o1_eq by (simp add: picture_blank_texts [OF ta a])
  show ?thesis
    unfolding o2_eq o3_eq by (simp add: size p1)
qed

section \<open>Properties: the download name\<close>

text \<open>
  C3. The download name is the base name, \<open>_watermarked.\<close> and the extension (\<open>png\<close> for a
  PDF). For \<open>passport.pdf\<close> the code gives \<open>passport_watermarked.png\<close>. For the name
  \<open>scan\<close> of type \<open>image/png\<close>, which has no dot, \<open>split\<close> returns the one part \<open>scan\<close>,
  \<open>pop\<close> takes it as the extension and leaves no name part: the code gives
  \<open>document_watermarked.scan\<close>, not \<open>scan_watermarked.png\<close>.
\<close>

theorem download_name_scan:
  "download_name \<lparr>file_name = ''passport.pdf'', file_type = ''application/pdf'', file_size = 1000\<rparr>
     = ''passport_watermarked.png''
   \<and> download_name \<lparr>file_name = ''scan'', file_type = ''image/png'', file_size = 1000\<rparr>
     = ''document_watermarked.scan''
   \<and> download_name \<lparr>file_name = ''scan'', file_type = ''image/png'', file_size = 1000\<rparr>
     \<noteq> ''scan_watermarked.png''"
  by (simp add: download_name_def pop_def or_else_def)

section \<open>Properties: the tiling\<close>



text \<open>
  C2. The spec asks that a measured text width of zero be guarded, so that the step is a
  finite positive value and the loops end. The code has no guard: for a source with
  \<open>W, H > 0\<close>, a context and a measured width of \<open>0\<close>, \<open>repetitions\<close> is \<open>Infinity\<close>, the
  step is \<open>0\<close>, and the block never returns, as \<open>y += 0\<close> leaves \<open>y\<close> below \<open>d / 2\<close>.
\<close>

theorem zero_width_stalls:
  fixes e img t
  defines "r \<equiv> fp e" and "w \<equiv> bm_width img" and "h \<equiv> bm_height img"
  assumes w: "0 < w" and h: "0 < h" and ctx: "getContext e w h"
    and tw: "measureText e (bold_sans_serif (fontSize r w h)) (or_else t ''CONFIDENTIAL'') = 0"
  shows "repetitions r (diagonalLength r w h) (Fin 0) = PInf
    \<and> step r (diagonalLength r w h) (repetitions r (diagonalLength r w h) (Fin 0)) = Fin 0
    \<and> composite e img t = None"
proof -
  from w obtain dd where d: "diagonalLength r w h = Fin dd" and dd: "1 / 4 \<le> dd"
    by (rule diagonal_bounds)
  from dd have pos: "0 < dd" by simp
  have zero: "fl r (0 * fl r 0.7) = 0" by simp
  note step_zero_divisor [OF pos zero]
  moreover have "composite e img t = None"
    using w ctx tw unfolding w_def h_def r_def by (rule composite_zero_width)
  ultimately show ?thesis unfolding d by blast
qed

theorem zero_width_stalls_witness:
  "repetitions exact (diagonalLength exact 3 4) (Fin 0) = PInf
   \<and> step exact (diagonalLength exact 3 4) (repetitions exact (diagonalLength exact 3 4) (Fin 0)) = Fin 0
   \<and> composite \<lparr>getContext = \<lambda>w h. True, measureText = \<lambda>f s. 0, loadImage = \<lambda>u. None, fp = exact\<rparr>
        (Bitmap 3 4 [Decoded ''photo'']) ''X'' = None"
  using zero_width_stalls [where img = "Bitmap 3 4 [Decoded ''photo'']" and t = "''X''" and
      e = "\<lparr>getContext = \<lambda>w h. True, measureText = \<lambda>f s. 0, loadImage = \<lambda>u. None, fp = exact\<rparr>"]
  by auto

section \<open>Properties: the image the compositor returns\<close>







text \<open>
  C1, amended. The text drawn is \<open>watermarkText || "CONFIDENTIAL"\<close>, with no trimming:
  the default for the empty string, and every other string as it is, blanks included.
\<close>

theorem effective_text_or_default:
  assumes "composite e img t = Some (Inr out)" and "p \<in> set (tl (bm_paint out))"
  shows "text_of p = (if t = [] then ''CONFIDENTIAL'' else t)"
proof -
  from composite_Inr [OF assms(1)] obtain ts where
    "bm_paint out = DrawImage img (Fin 0) (Fin 0) (Fin (real (bm_width img)))
                      (Fin (real (bm_height img))) # ts"
    and "\<forall>p \<in> set ts. \<exists>x y s. p = FillText (or_else t ''CONFIDENTIAL'') x y s"
    by auto
  with assms(2) show ?thesis by (auto simp: or_else_def)
qed

theorem effective_text_or_default_witness:
  "text_of (FillText ''   '' (Fin (- 5 / 2)) (Fin (- 5 / 2))
     \<lparr>font = bold_sans_serif (fontSize exact 3 4), fillStyle = ''rgba(128, 128, 128, 0.35)'',
      textAlign = ''center'', textBaseline = ''middle'',
      transform = [Translate (Fin (3 / 2)) (Fin (4 / 2)), Rotate (Fin (- pi / 4))]\<rparr>) = ''   ''
   \<and> (\<exists>out. composite \<lparr>getContext = \<lambda>w h. True, measureText = \<lambda>f s. 10, loadImage = \<lambda>u. None,
                        fp = exact\<rparr>
              (Bitmap 3 4 [Decoded ''photo'']) ''   '' = Some (Inr out)
        \<and> FillText ''   '' (Fin (- 5 / 2)) (Fin (- 5 / 2))
             \<lparr>font = bold_sans_serif (fontSize exact 3 4), fillStyle = ''rgba(128, 128, 128, 0.35)'',
              textAlign = ''center'', textBaseline = ''middle'',
              transform = [Translate (Fin (3 / 2)) (Fin (4 / 2)), Rotate (Fin (- pi / 4))]\<rparr>
            \<in> set (tl (bm_paint out)))"
proof -
  let ?e = "\<lparr>getContext = \<lambda>w h. True, measureText = \<lambda>f s. 10, loadImage = \<lambda>u. None, fp = exact\<rparr>"
  let ?img = "Bitmap 3 4 [Decoded ''photo'']"
  let ?p = "FillText ''   '' (Fin (- 5 / 2)) (Fin (- 5 / 2))
     \<lparr>font = bold_sans_serif (fontSize exact 3 4), fillStyle = ''rgba(128, 128, 128, 0.35)'',
      textAlign = ''center'', textBaseline = ''middle'',
      transform = [Translate (Fin (3 / 2)) (Fin (4 / 2)), Rotate (Fin (- pi / 4))]\<rparr>"
  let ?out = "Bitmap 3 4 (DrawImage ?img (Fin 0) (Fin 0) (Fin 3) (Fin 4) #
      map (\<lambda>(x, y). FillText ''   '' x y
        \<lparr>font = bold_sans_serif (fontSize exact 3 4), fillStyle = ''rgba(128, 128, 128, 0.35)'',
         textAlign = ''center'', textBaseline = ''middle'',
         transform = [Translate (Fin (3 / 2)) (Fin (4 / 2)), Rotate (Fin (- pi / 4))]\<rparr>)
        (concat (grid 5 1)))"
  have "sqrt (25::real) = 5" by (rule real_sqrt_unique) simp_all
  then have run: "composite ?e ?img ''   '' = Some (Inr ?out)"
    using composite_pos_width [of ?e ?img "''   ''"] by (simp add: or_else_def)
  have p: "?p \<in> set (tl (bm_paint ?out))"
    by (simp add: grid_def upt_rec)
  from effective_text_or_default [OF run p] run p show ?thesis by auto
qed

text \<open>C1 as the spec states it (a blank text falls back to the default) fails for a text
  of three blanks: each of the ten texts drawn on a \<open>3 \<times> 4\<close> source is the three
  blanks, not the default.\<close>

theorem blank_text_counterexample:
  "(case composite \<lparr>getContext = \<lambda>w h. True, measureText = \<lambda>f s. 10, loadImage = \<lambda>u. None,
                    fp = exact\<rparr>
           (Bitmap 3 4 [Decoded ''photo'']) ''   '' of
      Some (Inr out) \<Rightarrow> map text_of (tl (bm_paint out))
    | _ \<Rightarrow> [])
   = replicate 10 ''   ''"
proof -
  have "sqrt (25::real) = 5" by (rule real_sqrt_unique) simp_all
  then show ?thesis
    using composite_pos_width [of
      "\<lparr>getContext = \<lambda>w h. True, measureText = \<lambda>f s. 10, loadImage = \<lambda>u. None, fp = exact\<rparr>"
      "Bitmap 3 4 [Decoded ''photo'']" "''   ''"]
    by (simp add: grid_def or_else_def upt_rec) (simp add: eval_nat_numeral)
qed

text \<open>
  C9, amended. When watermarking the source with \<open>a\<close> returns \<open>o1\<close> and watermarking \<open>o1\<close>
  with \<open>b\<close> returns \<open>o2\<close>: \<open>o1\<close> is a new image that begins with the source drawn whole,
  followed by texts \<open>a\<close>; \<open>o2\<close> begins with \<open>o1\<close> drawn whole, followed by texts \<open>b\<close>; the
  layers of \<open>o2\<close> are those of the source, the texts \<open>a\<close> and the texts \<open>b\<close>; and
  watermarking the source with \<open>b\<close> alone returns the source under the very texts \<open>b\<close> of
  \<open>o2\<close>. The two results need not differ: under a blank \<open>a\<close> they show the same picture.
  In the page, \<open>applyWatermark\<close> reads the preview and never writes it, so that applying
  \<open>a\<close> and then \<open>b\<close> shows what applying \<open>b\<close> alone shows.
\<close>

theorem two_layers:
  fixes e src a b o1 o2
  defines "w \<equiv> bm_width src" and "h \<equiv> bm_height src"
  assumes o1: "composite e src a = Some (Inr o1)" and o2: "composite e o1 b = Some (Inr o2)"
  shows "bm_paint o1 = DrawImage src (Fin 0) (Fin 0) (Fin (real w)) (Fin (real h)) # tl (bm_paint o1)
    \<and> bm_paint o2 = DrawImage o1 (Fin 0) (Fin 0) (Fin (real w)) (Fin (real h)) # tl (bm_paint o2)
    \<and> (\<forall>p \<in> set (tl (bm_paint o1)). \<exists>x y g. p = FillText (or_else a ''CONFIDENTIAL'') x y g)
    \<and> (\<forall>p \<in> set (tl (bm_paint o2)). \<exists>x y g. p = FillText (or_else b ''CONFIDENTIAL'') x y g)
    \<and> (0 < w \<longrightarrow> tl (bm_paint o1) \<noteq> [] \<and> tl (bm_paint o2) \<noteq> [])
    \<and> layers o2 = layers src @ tl (bm_paint o1) @ tl (bm_paint o2)
    \<and> composite e src b =
        Some (Inr (Bitmap w h (DrawImage src (Fin 0) (Fin 0) (Fin (real w)) (Fin (real h))
                               # tl (bm_paint o2))))
    \<and> (blank (or_else a ''CONFIDENTIAL'') \<longrightarrow>
         (\<forall>o3. composite e src b = Some (Inr o3) \<longrightarrow> picture o2 = picture o3))
    \<and> (\<forall>st st1 st2 st3.
          applyWatermark e (st\<lparr>watermarkText := a\<rparr>) = Some st1 \<and>
          applyWatermark e (st1\<lparr>watermarkText := b\<rparr>) = Some st2 \<and>
          applyWatermark e (st\<lparr>watermarkText := b\<rparr>) = Some st3 \<longrightarrow>
          originalImagePreviewSrc st1 = originalImagePreviewSrc st \<and>
          originalImagePreviewSrc st2 = originalImagePreviewSrc st \<and>
          watermarkedImageSrc st2 = watermarkedImageSrc st3)"
proof -
  from composite_Inr [OF o1] obtain ta where
    o1_eq: "o1 = Bitmap w h (DrawImage src (Fin 0) (Fin 0) (Fin (real w)) (Fin (real h)) # ta)"
    and ta: "\<forall>p \<in> set ta. \<exists>x y g. p = FillText (or_else a ''CONFIDENTIAL'') x y g"
    unfolding w_def h_def by blast
  have size: "bm_width o1 = w" "bm_height o1 = h" unfolding o1_eq by simp_all
  from composite_Inr [OF o2] obtain tb where
    o2_eq: "o2 = Bitmap w h (DrawImage o1 (Fin 0) (Fin 0) (Fin (real w)) (Fin (real h)) # tb)"
    and tb: "\<forall>p \<in> set tb. \<exists>x y g. p = FillText (or_else b ''CONFIDENTIAL'') x y g"
    unfolding size by blast
  have tails: "tl (bm_paint o1) = ta" "tl (bm_paint o2) = tb"
    unfolding o1_eq o2_eq by simp_all
  have heads: "bm_paint o1 = DrawImage src (Fin 0) (Fin 0) (Fin (real w)) (Fin (real h)) # tl (bm_paint o1)"
    "bm_paint o2 = DrawImage o1 (Fin 0) (Fin 0) (Fin (real w)) (Fin (real h)) # tl (bm_paint o2)"
    unfolding tails by (simp_all add: o1_eq o2_eq)
  have texts: "\<forall>p \<in> set (tl (bm_paint o1)). \<exists>x y g. p = FillText (or_else a ''CONFIDENTIAL'') x y g"
    "\<forall>p \<in> set (tl (bm_paint o2)). \<exists>x y g. p = FillText (or_else b ''CONFIDENTIAL'') x y g"
    unfolding tails using ta tb by blast+
  have painted: "0 < w \<longrightarrow> tl (bm_paint o1) \<noteq> [] \<and> tl (bm_paint o2) \<noteq> []"
    using composite_paints [OF o1] composite_paints [OF o2] unfolding size w_def by blast
  from ta have ta': "\<forall>p \<in> set ta. \<exists>s x y g. p = FillText s x y g" by blast
  from tb have tb': "\<forall>p \<in> set tb. \<exists>s x y g. p = FillText s x y g" by blast
  have lay: "layers o2 = layers src @ tl (bm_paint o1) @ tl (bm_paint o2)"
    unfolding tails
    by (cases src) (simp add: o1_eq o2_eq layers_texts [OF ta'] layers_texts [OF tb'])
  have "bm_width src = bm_width o1" "bm_height src = bm_height o1"
    unfolding size w_def h_def by simp_all
  from composite_same_texts [OF o2 this]
  have o3: "composite e src b =
        Some (Inr (Bitmap w h (DrawImage src (Fin 0) (Fin 0) (Fin (real w)) (Fin (real h))
                               # tl (bm_paint o2))))"
    unfolding size .
  have same: "blank (or_else a ''CONFIDENTIAL'') \<longrightarrow>
         (\<forall>o3. composite e src b = Some (Inr o3) \<longrightarrow> picture o2 = picture o3)"
    using composite_blank_under [OF o1 o2] by blast
  have page: "originalImagePreviewSrc st1 = originalImagePreviewSrc st \<and>
          originalImagePreviewSrc st2 = originalImagePreviewSrc st \<and>
          watermarkedImageSrc st2 = watermarkedImageSrc st3"
    if runs: "applyWatermark e (st\<lparr>watermarkText := a\<rparr>) = Some st1 \<and>
          applyWatermark e (st1\<lparr>watermarkText := b\<rparr>) = Some st2 \<and>
          applyWatermark e (st\<lparr>watermarkText := b\<rparr>) = Some st3" for st st1 st2 st3
  proof -
    from runs have r1: "applyWatermark e (st\<lparr>watermarkText := a\<rparr>) = Some st1"
      and r2: "applyWatermark e (st1\<lparr>watermarkText := b\<rparr>) = Some st2"
      and r3: "applyWatermark e (st\<lparr>watermarkText := b\<rparr>) = Some st3"
      by simp_all
    from applyWatermark_keeps_source [OF r1]
    have k1: "originalImagePreviewSrc st1 = originalImagePreviewSrc st" by simp
    from applyWatermark_keeps_source [OF r2] k1
    have k2: "originalImagePreviewSrc st2 = originalImagePreviewSrc st" by simp
    have w1: "originalImagePreviewSrc st = None \<or> originalImagePreviewSrc st = Some [] \<Longrightarrow>
        watermarkedImageSrc st1 = watermarkedImageSrc st"
      using applyWatermark_output [OF r1] by auto
    have "watermarkedImageSrc st2 = watermarkedImageSrc st3"
      unfolding applyWatermark_output [OF r2] applyWatermark_output [OF r3]
      using k1 w1 by (auto split: option.splits)
    with k1 k2 show ?thesis by blast
  qed
  from heads texts painted lay o3 same page show ?thesis by blast
qed

theorem two_layers_witness:
  "\<exists>o1 o2.
      composite \<lparr>getContext = \<lambda>w h. True, measureText = \<lambda>f s. 10, loadImage = \<lambda>u. None, fp = exact\<rparr>
        (Bitmap 3 4 [Decoded ''photo'']) ''A'' = Some (Inr o1) \<and>
      composite \<lparr>getContext = \<lambda>w h. True, measureText = \<lambda>f s. 10, loadImage = \<lambda>u. None, fp = exact\<rparr>
        o1 ''B'' = Some (Inr o2) \<and>
      layers o2 = tl (bm_paint o1) @ tl (bm_paint o2) \<and>
      tl (bm_paint o1) \<noteq> [] \<and> tl (bm_paint o2) \<noteq> [] \<and>
      composite \<lparr>getContext = \<lambda>w h. True, measureText = \<lambda>f s. 10, loadImage = \<lambda>u. None, fp = exact\<rparr>
        (Bitmap 3 4 [Decoded ''photo'']) ''B''
      = Some (Inr (Bitmap 3 4 (DrawImage (Bitmap 3 4 [Decoded ''photo'']) (Fin 0) (Fin 0) (Fin 3) (Fin 4)
                               # tl (bm_paint o2))))"
proof -
  let ?e = "\<lparr>getContext = \<lambda>w h. True, measureText = \<lambda>f s. 10, loadImage = \<lambda>u. None, fp = exact\<rparr>"
  let ?src = "Bitmap 3 4 [Decoded ''photo'']"
  have "\<exists>out. composite ?e ?src ''A'' = Some (Inr out)"
    by (rule composite_returns) simp_all
  then obtain o1 where o1: "composite ?e ?src ''A'' = Some (Inr o1)" by blast
  from composite_Inr [OF o1] have size: "bm_width o1 = 3" "bm_height o1 = 4" by auto
  have "\<exists>out. composite ?e o1 ''B'' = Some (Inr out)"
    by (rule composite_returns) (simp_all add: size)
  then obtain o2 where o2: "composite ?e o1 ''B'' = Some (Inr o2)" by blast
  from two_layers [OF o1 o2] o1 o2 show ?thesis by auto
qed

text \<open>C9 as the spec states it (the two results are never equal) fails on a \<open>3 \<times> 4\<close>
  source for a first text of three blanks and the second text \<open>B\<close>: the three blocks
  return, and the image watermarked twice shows the picture of the image watermarked
  with \<open>B\<close> alone.\<close>

theorem blank_layer_counterexample:
  "(case composite \<lparr>getContext = \<lambda>w h. True, measureText = \<lambda>f s. 10, loadImage = \<lambda>u. None,
                    fp = exact\<rparr> (Bitmap 3 4 [Decoded ''photo'']) ''   '' of
      Some (Inr o1) \<Rightarrow>
        (case composite \<lparr>getContext = \<lambda>w h. True, measureText = \<lambda>f s. 10, loadImage = \<lambda>u. None,
                         fp = exact\<rparr> o1 ''B'' of
           Some (Inr o2) \<Rightarrow>
             (case composite \<lparr>getContext = \<lambda>w h. True, measureText = \<lambda>f s. 10,
                              loadImage = \<lambda>u. None, fp = exact\<rparr> (Bitmap 3 4 [Decoded ''photo'']) ''B'' of
                Some (Inr o3) \<Rightarrow> picture o2 = picture o3 \<and> picture o3 \<noteq> []
              | _ \<Rightarrow> False)
         | _ \<Rightarrow> False)
    | _ \<Rightarrow> False)"
proof -
  let ?e = "\<lparr>getContext = \<lambda>w h. True, measureText = \<lambda>f s. 10, loadImage = \<lambda>u. None, fp = exact\<rparr>"
  let ?src = "Bitmap 3 4 [Decoded ''photo'']"
  have "\<exists>out. composite ?e ?src ''   '' = Some (Inr out)"
    by (rule composite_returns) simp_all
  then obtain o1 where o1: "composite ?e ?src ''   '' = Some (Inr o1)" by blast
  from composite_Inr [OF o1] have size: "bm_width o1 = 3" "bm_height o1 = 4" by auto
  have "\<exists>out. composite ?e o1 ''B'' = Some (Inr out)"
    by (rule composite_returns) (simp_all add: size)
  then obtain o2 where o2: "composite ?e o1 ''B'' = Some (Inr o2)" by blast
  have "\<exists>out. composite ?e ?src ''B'' = Some (Inr out)"
    by (rule composite_returns) simp_all
  then obtain o3 where o3: "composite ?e ?src ''B'' = Some (Inr o3)" by blast
  have "blank (or_else ''   '' ''CONFIDENTIAL'')" by (simp add: blank_def or_else_def)
  with o1 o2 o3 have eq: "picture o2 = picture o3" by (rule composite_blank_under)
  from composite_Inr [OF o3] obtain ts where
    "o3 = Bitmap 3 4 (DrawImage ?src (Fin 0) (Fin 0) (Fin 3) (Fin 4) # ts)" by auto
  then have "picture o3 \<noteq> []" by simp
  with eq show ?thesis by (simp add: o1 o2 o3)
qed

section \<open>Properties: selecting a file and the errors of watermarking\<close>

text \<open>
  C6. For a file of a supported type, in both copies of \<open>handleFileChange\<close>: a size of
  \<open>20 * 1024 * 1024 + 1\<close> bytes sets the too-large error, leaves \<open>originalFile\<close> null, and the
  effect hands no file to the reader; a size of exactly \<open>20 * 1024 * 1024\<close> bytes sets no
  error, stores the file, and the effect hands it to the reader.
\<close>

theorem size_limit_boundary:
  assumes "file_type f = ''application/pdf'' \<or> startsWith (file_type f) ''image/''"
  shows "(file_size f = 20 * 1024 * 1024 + 1 \<longrightarrow>
            error (handleFileChange (Some f) st) = Some ''File is too large. Maximum size is 20MB.'' \<and>
            originalFile (handleFileChange (Some f) st) = None \<and>
            originalImagePreviewSrc (handleFileChange (Some f) st) = None \<and>
            snd (fileEffect (handleFileChange (Some f) st)) = None \<and>
            error (handleFileChange_page (Some f) st) = Some ''File is too large. Maximum size is 20MB.'' \<and>
            originalFile (handleFileChange_page (Some f) st) = None \<and>
            snd (fileEffect (handleFileChange_page (Some f) st)) = None)
       \<and> (file_size f = 20 * 1024 * 1024 \<longrightarrow>
            error (handleFileChange (Some f) st) = None \<and>
            originalFile (handleFileChange (Some f) st) = Some f \<and>
            snd (fileEffect (handleFileChange (Some f) st)) = Some f \<and>
            error (handleFileChange_page (Some f) st) = None \<and>
            originalFile (handleFileChange_page (Some f) st) = Some f \<and>
            snd (fileEffect (handleFileChange_page (Some f) st)) = Some f)"
  using assms
  by (auto simp: handleFileChange_def handleFileChange_page_def resetState_def resetState_page_def
      fileEffect_def Let_def)

theorem size_limit_boundary_witness:
  "(let st = \<lparr>originalFile = None, originalImagePreviewSrc = None, watermarkText = ''CONFIDENTIAL'',
              watermarkedImageSrc = None, isLoading = False, progress = 0, error = None,
              toasts = [], fileInputValue = [], originalImageRefSrc = []\<rparr>;
        big = \<lparr>file_name = ''scan.png'', file_type = ''image/png'', file_size = 20971521\<rparr>;
        ok = \<lparr>file_name = ''scan.png'', file_type = ''image/png'', file_size = 20971520\<rparr>
    in error (handleFileChange (Some big) st) = Some ''File is too large. Maximum size is 20MB.''
       \<and> originalFile (handleFileChange (Some big) st) = None
       \<and> snd (fileEffect (handleFileChange (Some big) st)) = None
       \<and> error (handleFileChange (Some ok) st) = None
       \<and> originalFile (handleFileChange (Some ok) st) = Some ok
       \<and> snd (fileEffect (handleFileChange (Some ok) st)) = Some ok)"
  using size_limit_boundary [of "\<lparr>file_name = ''scan.png'', file_type = ''image/png'', file_size = 20971521\<rparr>"
      "\<lparr>originalFile = None, originalImagePreviewSrc = None, watermarkText = ''CONFIDENTIAL'',
              watermarkedImageSrc = None, isLoading = False, progress = 0, error = None,
              toasts = [], fileInputValue = [], originalImageRefSrc = []\<rparr>"]
    size_limit_boundary [of "\<lparr>file_name = ''scan.png'', file_type = ''image/png'', file_size = 20971520\<rparr>"
      "\<lparr>originalFile = None, originalImagePreviewSrc = None, watermarkText = ''CONFIDENTIAL'',
              watermarkedImageSrc = None, isLoading = False, progress = 0, error = None,
              toasts = [], fileInputValue = [], originalImageRefSrc = []\<rparr>"]
  by (simp add: startsWith_def Let_def)

text \<open>
  C8. \<open>img.onerror\<close> and the \<open>catch\<close> branch of \<open>img.onload\<close> (in both copies) set the
  watermarked image to null, report an error and stop loading. So whenever
  \<open>applyWatermark\<close> ends with an error, the watermarked image is null, except when there
  was no preview to start from, where nothing was begun and it is left as it was.
\<close>

theorem watermark_errors_discard_output:
  "watermarkedImageSrc (img_onerror st) = None \<and> error (img_onerror st) \<noteq> None
   \<and> \<not> isLoading (img_onerror st)
   \<and> (composite e img (watermarkText st) = Some (Inl err) \<longrightarrow>
        (\<exists>st'. img_onload e img st = Some st' \<and> watermarkedImageSrc st' = None \<and>
               error st' \<noteq> None \<and> \<not> isLoading st') \<and>
        (\<exists>st'. img_onload_page e img st = Some st' \<and> watermarkedImageSrc st' = None \<and>
               error st' \<noteq> None \<and> \<not> isLoading st'))
   \<and> (\<forall>st'. applyWatermark e st = Some st' \<and> error st' \<noteq> None \<longrightarrow>
          watermarkedImageSrc st' = None \<or>
          ((originalImagePreviewSrc st = None \<or> originalImagePreviewSrc st = Some []) \<and>
           watermarkedImageSrc st' = watermarkedImageSrc st))"
proof -
  have onerror: "watermarkedImageSrc (img_onerror st) = None \<and> error (img_onerror st) \<noteq> None
      \<and> \<not> isLoading (img_onerror st)" for st
    by (simp add: img_onerror_def)
  have onload: "watermarkedImageSrc st' = None \<or>
      (error st' = error st \<and> (\<exists>out. composite e img (watermarkText st) = Some (Inr out)))"
    if "img_onload e img st = Some st'" for st st' img
    using that
    by (auto simp: img_onload_def Let_def split: option.splits sum.splits js_error.splits)
  have caught: "composite e img (watermarkText st) = Some (Inl err) \<longrightarrow>
        (\<exists>st'. img_onload e img st = Some st' \<and> watermarkedImageSrc st' = None \<and>
               error st' \<noteq> None \<and> \<not> isLoading st') \<and>
        (\<exists>st'. img_onload_page e img st = Some st' \<and> watermarkedImageSrc st' = None \<and>
               error st' \<noteq> None \<and> \<not> isLoading st')"
    by (cases err) (simp add: img_onload_def img_onload_page_def Let_def)
  have applied: "watermarkedImageSrc st' = None \<or>
          ((originalImagePreviewSrc st = None \<or> originalImagePreviewSrc st = Some []) \<and>
           watermarkedImageSrc st' = watermarkedImageSrc st)"
    if run: "applyWatermark e st = Some st'" and err: "error st' \<noteq> None" for st'
  proof (cases "originalImagePreviewSrc st = None \<or> originalImagePreviewSrc st = Some []")
    case True
    with run show ?thesis by (auto simp: applyWatermark_def)
  next
    case False
    then obtain src where src: "originalImagePreviewSrc st = Some src" "src \<noteq> []" by auto
    let ?st1 = "st\<lparr>isLoading := True, error := None, progress := 0\<rparr>"
    show ?thesis
    proof (cases "loadImage e src")
      case None
      with run src have "st' = img_onerror ?st1" by (simp add: applyWatermark_def)
      with onerror show ?thesis by simp
    next
      case (Some img)
      with run src have "img_onload e img ?st1 = Some st'" by (simp add: applyWatermark_def)
      from onload [OF this] err show ?thesis by auto
    qed
  qed
  from onerror caught applied show ?thesis by blast
qed

theorem watermark_errors_discard_output_witness:
  "(let e = \<lparr>getContext = \<lambda>w h. False, measureText = \<lambda>f s. 10,
             loadImage = \<lambda>u. Some (Bitmap 3 4 [Decoded u]), fp = exact\<rparr>;
        st = \<lparr>originalFile = Some \<lparr>file_name = ''scan.png'', file_type = ''image/png'', file_size = 1000\<rparr>,
              originalImagePreviewSrc = Some ''data:image/png;base64,AAAA'',
              watermarkText = ''CONFIDENTIAL'',
              watermarkedImageSrc = Some (Bitmap 3 4 []), isLoading = False, progress = 100,
              error = None, toasts = [], fileInputValue = ''scan.png'', originalImageRefSrc = []\<rparr>
    in composite e (Bitmap 3 4 [Decoded ''data:image/png;base64,AAAA'']) (watermarkText st)
         = Some (Inl (Error ''Could not get canvas context.''))
       \<and> (\<exists>st'. img_onload e (Bitmap 3 4 [Decoded ''data:image/png;base64,AAAA'']) st = Some st'
              \<and> watermarkedImageSrc st' = None \<and> error st' \<noteq> None \<and> \<not> isLoading st'))"
proof -
  let ?e = "\<lparr>getContext = \<lambda>w h. False, measureText = \<lambda>f s. 10,
             loadImage = \<lambda>u. Some (Bitmap 3 4 [Decoded u]), fp = exact\<rparr>"
  let ?st = "\<lparr>originalFile = Some \<lparr>file_name = ''scan.png'', file_type = ''image/png'', file_size = 1000\<rparr>,
              originalImagePreviewSrc = Some ''data:image/png;base64,AAAA'',
              watermarkText = ''CONFIDENTIAL'',
              watermarkedImageSrc = Some (Bitmap 3 4 []), isLoading = False, progress = 100,
              error = None, toasts = [], fileInputValue = ''scan.png'', originalImageRefSrc = []\<rparr>"
  let ?img = "Bitmap 3 4 [Decoded ''data:image/png;base64,AAAA'']"
  have thrown: "composite ?e ?img (watermarkText ?st) = Some (Inl (Error ''Could not get canvas context.''))"
    by (rule composite_no_context) simp
  with watermark_errors_discard_output [of ?st ?e ?img "Error ''Could not get canvas context.''"]
  show ?thesis unfolding Let_def by blast
qed

text \<open>
  C10. A selected file of an unsupported type, or of more than 20 MiB, leaves the file,
  the preview and the watermarked image null, whatever they were: the state is the
  reset state with the error message (and its toast) set, and the effect reads no file.
\<close>

theorem rejected_selection_resets:
  assumes "(file_type f \<noteq> ''application/pdf'' \<and> \<not> startsWith (file_type f) ''image/'')
           \<or> 20 * 1024 * 1024 < file_size f"
  shows "originalFile (handleFileChange (Some f) st) = None
    \<and> originalImagePreviewSrc (handleFileChange (Some f) st) = None
    \<and> watermarkedImageSrc (handleFileChange (Some f) st) = None
    \<and> error (handleFileChange (Some f) st) \<noteq> None
    \<and> \<not> isLoading (handleFileChange (Some f) st)
    \<and> progress (handleFileChange (Some f) st) = 0
    \<and> handleFileChange (Some f) st =
        (resetState st)\<lparr>error := error (handleFileChange (Some f) st),
                        toasts := toasts (handleFileChange (Some f) st)\<rparr>
    \<and> fileEffect (handleFileChange (Some f) st) = (handleFileChange (Some f) st, None)"
  using assms
  by (auto simp: handleFileChange_def resetState_def fileEffect_def Let_def toast_def)

theorem rejected_selection_resets_witness:
  "(let st = \<lparr>originalFile = Some \<lparr>file_name = ''scan.png'', file_type = ''image/png'', file_size = 1000\<rparr>,
              originalImagePreviewSrc = Some ''data:image/png;base64,AAAA'',
              watermarkText = ''CONFIDENTIAL'',
              watermarkedImageSrc = Some (Bitmap 3 4 []), isLoading = False, progress = 100,
              error = None, toasts = [], fileInputValue = ''notes.txt'', originalImageRefSrc = []\<rparr>;
        st' = handleFileChange (Some \<lparr>file_name = ''notes.txt'', file_type = ''text/plain'', file_size = 10\<rparr>) st
    in originalFile st' = None \<and> originalImagePreviewSrc st' = None \<and> watermarkedImageSrc st' = None
       \<and> error st' = Some ''Unsupported file type. Please upload an image (PNG, JPG) or PDF.'')"
  using rejected_selection_resets [of "\<lparr>file_name = ''notes.txt'', file_type = ''text/plain'', file_size = 10\<rparr>"
     "\<lparr>originalFile = Some \<lparr>file_name = ''scan.png'', file_type = ''image/png'', file_size = 1000\<rparr>,
              originalImagePreviewSrc = Some ''data:image/png;base64,AAAA'',
              watermarkText = ''CONFIDENTIAL'',
              watermarkedImageSrc = Some (Bitmap 3 4 []), isLoading = False, progress = 100,
              error = None, toasts = [], fileInputValue = ''notes.txt'', originalImageRefSrc = []\<rparr>"]
  by (simp add: startsWith_def Let_def handleFileChange_def resetState_def toast_def)

end
